theory Spec2Isabelle
  imports Main
begin

section \<open>Python values, strings and exceptions\<close>

text \<open>
  A shallow embedding of \<^verbatim>\<open>deepaffects_summary_api.py\<close>. A Python \<^verbatim>\<open>str\<close> is a
  \<^typ>\<open>string\<close>; a character is a code point below 256. Values that travel through JSON
  (the payload, the provider's replies, the request id, the model parameter) are of type
  \<open>json\<close>; a Python \<^verbatim>\<open>dict\<close> is an association list with distinct keys in insertion
  order, \<^verbatim>\<open>None\<close> is \<open>JNull\<close>. A finite float is \<open>JFloat m e\<close> for \<open>m * 2^e\<close>.
\<close>

datatype json =
    JNull
  | JBool bool
  | JInt int
  | JFloat int int
  | JStr string
  | JArr "json list"
  | JObj "(string \<times> json) list"

text \<open>
  The exceptions the script can meet. All but \<open>KeyboardInterrupt\<close> derive from
  \<^verbatim>\<open>Exception\<close>, which is what the handlers \<^verbatim>\<open>except Exception\<close> catch.
  \<open>RequestException\<close> stands for what \<^verbatim>\<open>requests\<close> raises (connection errors,
  timeouts, HTTP errors), \<open>JSONDecodeError\<close> for a body that is not JSON.
\<close>

datatype py_error =
    IndexError
  | KeyError string
  | TypeError
  | AttributeError
  | JSONDecodeError
  | OSError
  | RequestException
  | GetoptError string
  | KeyboardInterrupt

fun is_Exception :: "py_error \<Rightarrow> bool" where
  "is_Exception KeyboardInterrupt = False"
| "is_Exception _ = True"

subsection \<open>String methods\<close>

definition isspace :: "char \<Rightarrow> bool" where
  \<comment> \<open>\<^verbatim>\<open>str.isspace\<close> on the code points below 256\<close>
  "isspace c =
     (let n = (of_char c :: nat)
      in (9 \<le> n \<and> n \<le> 13) \<or> (28 \<le> n \<and> n \<le> 32) \<or> n = 133 \<or> n = 160)"

definition str_strip :: "string \<Rightarrow> string" where
  \<comment> \<open>\<^verbatim>\<open>s.strip()\<close>\<close>
  "str_strip s = rev (dropWhile isspace (rev (dropWhile isspace s)))"

definition lower_char :: "char \<Rightarrow> char" where
  "lower_char c =
     (let n = (of_char c :: nat)
      in if (65 \<le> n \<and> n \<le> 90) \<or> (192 \<le> n \<and> n \<le> 222 \<and> n \<noteq> 215)
         then char_of (n + 32) else c)"

definition str_lower :: "string \<Rightarrow> string" where
  \<comment> \<open>\<^verbatim>\<open>s.lower()\<close>\<close>
  "str_lower s = map lower_char s"

definition startswith :: "string \<Rightarrow> string \<Rightarrow> bool" where
  \<comment> \<open>\<^verbatim>\<open>s.startswith(p)\<close>\<close>
  "startswith s p = (take (length p) s = p)"

definition endswith :: "string \<Rightarrow> string \<Rightarrow> bool" where
  \<comment> \<open>\<^verbatim>\<open>s.endswith(p)\<close>\<close>
  "endswith s p = (length p \<le> length s \<and> drop (length s - length p) s = p)"

fun str_find :: "string \<Rightarrow> string \<Rightarrow> nat option" where
  \<comment> \<open>\<^verbatim>\<open>s.find(sub)\<close>: the lowest index where \<open>sub\<close> occurs, \<open>None\<close> for -1\<close>
  "str_find sub [] = (if sub = [] then Some 0 else None)"
| "str_find sub (c # cs) =
     (if startswith (c # cs) sub then Some 0 else map_option Suc (str_find sub cs))"

fun str_rfind :: "string \<Rightarrow> string \<Rightarrow> nat option" where
  \<comment> \<open>\<^verbatim>\<open>s.rfind(sub)\<close>: the highest index where \<open>sub\<close> occurs\<close>
  "str_rfind sub [] = (if sub = [] then Some 0 else None)"
| "str_rfind sub (c # cs) =
     (case str_rfind sub cs of
        Some i \<Rightarrow> Some (Suc i)
      | None \<Rightarrow> if startswith (c # cs) sub then Some 0 else None)"

definition str_in :: "string \<Rightarrow> string \<Rightarrow> bool" where
  \<comment> \<open>\<^verbatim>\<open>sub in s\<close>\<close>
  "str_in sub s = (str_find sub s \<noteq> None)"

definition split1 :: "string \<Rightarrow> string \<Rightarrow> string list" where
  \<comment> \<open>\<^verbatim>\<open>s.split(sep, 1)\<close> for a non-empty separator\<close>
  "split1 s sep =
     (case str_find sep s of
        None \<Rightarrow> [s]
      | Some i \<Rightarrow> [take i s, drop (i + length sep) s])"

definition rsplit1 :: "string \<Rightarrow> string \<Rightarrow> string list" where
  \<comment> \<open>\<^verbatim>\<open>s.rsplit(sep, 1)\<close> for a non-empty separator\<close>
  "rsplit1 s sep =
     (case str_rfind sep s of
        None \<Rightarrow> [s]
      | Some i \<Rightarrow> [take i s, drop (i + length sep) s])"

definition index_list :: "'a list \<Rightarrow> int \<Rightarrow> py_error + 'a" where
  \<comment> \<open>\<^verbatim>\<open>xs[i]\<close> on a list; \<^verbatim>\<open>xs[-1]\<close> is the last element\<close>
  "index_list xs i =
     (if 0 \<le> i \<and> i < int (length xs) then Inr (xs ! nat i)
      else if i < 0 \<and> - int (length xs) \<le> i then Inr (xs ! nat (int (length xs) + i))
      else Inl IndexError)"

subsection \<open>Dictionaries and subscripts\<close>

fun dict_set :: "(string \<times> json) list \<Rightarrow> string \<Rightarrow> json \<Rightarrow> (string \<times> json) list" where
  \<comment> \<open>\<^verbatim>\<open>d[k] = v\<close>: an existing key keeps its place, a new key goes last\<close>
  "dict_set [] k v = [(k, v)]"
| "dict_set (p # ps) k v = (if fst p = k then (k, v) # ps else p # dict_set ps k v)"

fun subscript :: "json \<Rightarrow> string \<Rightarrow> py_error + json" where
  \<comment> \<open>\<^verbatim>\<open>x[k]\<close> with a string key\<close>
  "subscript (JObj kvs) k = (case map_of kvs k of None \<Rightarrow> Inl (KeyError k) | Some v \<Rightarrow> Inr v)"
| "subscript _ k = Inl TypeError"

fun dict_get :: "json \<Rightarrow> string \<Rightarrow> py_error + json" where
  \<comment> \<open>\<^verbatim>\<open>x.get(k, None)\<close>: only a dict has the method\<close>
  "dict_get (JObj kvs) k = (case map_of kvs k of None \<Rightarrow> Inr JNull | Some v \<Rightarrow> Inr v)"
| "dict_get _ k = Inl AttributeError"

fun isinstance_dict :: "json \<Rightarrow> bool" where
  "isinstance_dict (JObj kvs) = True"
| "isinstance_dict _ = False"

section \<open>The transcript parsers\<close>

subsection \<open>Reading a text file line by line\<close>

definition LF :: char where "LF = CHR 0x0A"
definition CR :: char where "CR = CHR 0x0D"

fun translate_newlines :: "string \<Rightarrow> string" where
  \<comment> \<open>text mode with universal newlines: \<^verbatim>\<open>\r\n\<close> and \<^verbatim>\<open>\r\<close> are read as \<^verbatim>\<open>\n\<close>\<close>
  "translate_newlines (c # d # cs) =
     (if c = CR \<and> d = LF then LF # translate_newlines cs
      else if c = CR then LF # translate_newlines (d # cs)
      else c # translate_newlines (d # cs))"
| "translate_newlines [c] = (if c = CR then [LF] else [c])"
| "translate_newlines [] = []"

fun iter_lines :: "string \<Rightarrow> string list" where
  \<comment> \<open>\<^verbatim>\<open>for line in f\<close>: every line keeps its terminator\<close>
  "iter_lines [] = []"
| "iter_lines (c # cs) =
     (if c = LF then [LF] # iter_lines cs
      else (case iter_lines cs of [] \<Rightarrow> [[c]] | l # ls \<Rightarrow> (c # l) # ls))"

definition file_lines :: "string \<Rightarrow> string list" where
  "file_lines content = iter_lines (translate_newlines content)"

subsection \<open>read_text_to_segments\<close>

definition get_speaker_id :: "string \<Rightarrow> string" where
  \<comment> \<open>\<^verbatim>\<open>label[label.startswith("speaker_") and 8:]\<close>: the slice starts at 8 or at \<^verbatim>\<open>False\<close>, that is 0\<close>
  "get_speaker_id label =
     (let label = str_strip label
      in drop (if startswith label ''speaker_'' then 8 else 0) label)"

definition segment :: "string \<Rightarrow> string \<Rightarrow> json" where
  \<comment> \<open>the dict literal \<^verbatim>\<open>{"speakerId": speaker_id, "text": text}\<close>\<close>
  "segment speaker_id text = JObj [(''speakerId'', JStr speaker_id), (''text'', JStr text)]"

definition parse_line :: "string \<Rightarrow> py_error + json option" where
  \<comment> \<open>one pass through the loop body; \<open>Inr None\<close> is \<^verbatim>\<open>continue\<close>\<close>
  "parse_line line0 =
     (let line = str_strip line0
      in if line = [] then Inr None
         else
           let line = split1 line '': '';
               speaker_id = (case index_list line 0 of Inl e \<Rightarrow> Inl e
                             | Inr l \<Rightarrow> Inr (get_speaker_id l))
           in case speaker_id of
                Inl e \<Rightarrow> Inl e
              | Inr speaker_id \<Rightarrow>
                 (case index_list line 1 of
                    Inl e \<Rightarrow> Inl e
                  | Inr rest \<Rightarrow>
                     let line = rsplit1 rest '': ''
                     in if length line \<ge> 1
                        then (case index_list line (- 1) of
                                Inl e \<Rightarrow> Inl e
                              | Inr t \<Rightarrow> Inr (Some (segment speaker_id (str_strip t))))
                        else Inr (Some (segment speaker_id ''''))))"

fun read_text_lines :: "string list \<Rightarrow> json list \<Rightarrow> py_error + json list" where
  \<comment> \<open>the loop over the lines, with \<open>output_segments\<close> as accumulator\<close>
  "read_text_lines [] output_segments = Inr output_segments"
| "read_text_lines (line # lines) output_segments =
     (case parse_line line of
        Inl e \<Rightarrow> Inl e
      | Inr None \<Rightarrow> read_text_lines lines output_segments
      | Inr (Some seg) \<Rightarrow> read_text_lines lines (output_segments @ [seg]))"


section \<open>The outside world\<close>

text \<open>
  What the script does to the outside is recorded in a world: the files, a trace of the
  effects in the order they happen, and the number of status requests made so far. What
  the outside answers is given by an environment: the API key constant, the JSON codec
  (\<^verbatim>\<open>json.loads\<close> of a file's text, \<^verbatim>\<open>json.dumps\<close> of a value), the network, and the
  file system's answers to \<^verbatim>\<open>open(path, 'w')\<close> and \<^verbatim>\<open>os.path.isdir\<close>. An HTTP call
  either raises or returns a response, and \<^verbatim>\<open>response.json()\<close> either raises or returns
  the decoded body; the answer to a status request may depend on how many were made before.
\<close>

datatype event =
    Print string
  | PrintExc py_error
  | PrintFormat string "json list"
  | HttpPost string "(string \<times> json) list" json
  | HttpGet string "(string \<times> json) list"
  | Sleep nat
  | FileWrite string string

record world =
  files :: "string \<rightharpoonup> string"
  trace :: "event list"
  polls :: nat

record env =
  apikey :: string
  json_loads :: "string \<Rightarrow> py_error + json"
  json_dumps :: "json \<Rightarrow> string"
  http_post :: "string \<Rightarrow> (string \<times> json) list \<Rightarrow> json \<Rightarrow> py_error + (py_error + json)"
  http_get :: "nat \<Rightarrow> string \<Rightarrow> (string \<times> json) list \<Rightarrow> py_error + (py_error + json)"
  can_write :: "string \<Rightarrow> bool"
  isdir :: "string \<Rightarrow> bool"

definition log :: "event \<Rightarrow> world \<Rightarrow> world" where
  "log e w = w\<lparr>trace := trace w @ [e]\<rparr>"

definition open_read :: "world \<Rightarrow> string \<Rightarrow> py_error + string" where
  \<comment> \<open>\<^verbatim>\<open>open(file_path)\<close> and reading it: a missing file raises\<close>
  "open_read w file_path = (case files w file_path of None \<Rightarrow> Inl OSError | Some content \<Rightarrow> Inr content)"

definition write_file :: "env \<Rightarrow> string \<Rightarrow> string \<Rightarrow> world \<Rightarrow> py_error + world" where
  \<comment> \<open>\<^verbatim>\<open>with open(path, 'w') as f\<close> and writing \<open>content\<close>: the file is replaced\<close>
  "write_file env path content w =
     (if can_write env path
      then Inr (log (FileWrite path content) (w\<lparr>files := (files w)(path \<mapsto> content)\<rparr>))
      else Inl OSError)"

subsection \<open>os.path\<close>

definition basename :: "string \<Rightarrow> string" where
  \<comment> \<open>\<^verbatim>\<open>i = p.rfind('/') + 1; return p[i:]\<close>\<close>
  "basename p = (case str_rfind ''/'' p of None \<Rightarrow> p | Some i \<Rightarrow> drop (Suc i) p)"

definition path_join :: "string \<Rightarrow> string \<Rightarrow> string" where
  \<comment> \<open>\<^verbatim>\<open>os.path.join(a, b)\<close>\<close>
  "path_join a b =
     (if startswith b ''/'' then b
      else if a = [] \<or> endswith a ''/'' then a @ b
      else a @ ''/'' @ b)"

definition splitext :: "string \<Rightarrow> string \<times> string" where
  \<comment> \<open>\<^verbatim>\<open>os.path.splitext(p)\<close>: the extension starts at the last dot of the last
      component, unless only dots come before it there\<close>
  "splitext p =
     (let filenameIndex = (case str_rfind ''/'' p of None \<Rightarrow> 0 | Some s \<Rightarrow> Suc s)
      in case str_rfind ''.'' p of
           None \<Rightarrow> (p, [])
         | Some dotIndex \<Rightarrow>
            if filenameIndex \<le> dotIndex \<and>
               list_ex (\<lambda>c. c \<noteq> CHR ''.'') (take (dotIndex - filenameIndex) (drop filenameIndex p))
            then (take dotIndex p, drop dotIndex p)
            else (p, []))"

subsection \<open>The file-level parsers\<close>

definition read_text_to_segments :: "world \<Rightarrow> string \<Rightarrow> py_error + json" where
  "read_text_to_segments w file_path =
     (case open_read w file_path of
        Inl e \<Rightarrow> Inl e
      | Inr content \<Rightarrow>
         (case read_text_lines (file_lines content) [] of
            Inl e \<Rightarrow> Inl e
          | Inr output_segments \<Rightarrow> Inr (JArr output_segments)))"

fun copy_speaker_id :: "json \<Rightarrow> py_error + json" where
  \<comment> \<open>\<^verbatim>\<open>x["speakerId"] = x["speaker_id"]\<close>\<close>
  "copy_speaker_id (JObj kvs) =
     (case subscript (JObj kvs) ''speaker_id'' of
        Inl e \<Rightarrow> Inl e
      | Inr v \<Rightarrow> Inr (JObj (dict_set kvs ''speakerId'' v)))"
| "copy_speaker_id x = Inl TypeError"

fun copy_speaker_ids :: "json list \<Rightarrow> py_error + json list" where
  \<comment> \<open>the loop \<^verbatim>\<open>for x in output_segments\<close> over a list\<close>
  "copy_speaker_ids [] = Inr []"
| "copy_speaker_ids (x # xs) =
     (case copy_speaker_id x of
        Inl e \<Rightarrow> Inl e
      | Inr y \<Rightarrow> (case copy_speaker_ids xs of Inl e \<Rightarrow> Inl e | Inr ys \<Rightarrow> Inr (y # ys)))"

fun for_x_in_output_segments :: "json \<Rightarrow> py_error + json" where
  \<comment> \<open>the loop on whatever \<^verbatim>\<open>segments\<close> holds: a list is updated element by element;
      a dict or a string yields its keys or characters, which are strings and cannot be
      subscripted by a string; nothing else can be iterated\<close>
  "for_x_in_output_segments (JArr xs) =
     (case copy_speaker_ids xs of Inl e \<Rightarrow> Inl e | Inr ys \<Rightarrow> Inr (JArr ys))"
| "for_x_in_output_segments (JObj kvs) = (if kvs = [] then Inr (JObj kvs) else Inl TypeError)"
| "for_x_in_output_segments (JStr s) = (if s = [] then Inr (JStr s) else Inl TypeError)"
| "for_x_in_output_segments x = Inl TypeError"

definition read_json_to_segments :: "env \<Rightarrow> world \<Rightarrow> string \<Rightarrow> py_error + json" where
  "read_json_to_segments env w file_path =
     (case open_read w file_path of
        Inl e \<Rightarrow> Inl e
      | Inr content \<Rightarrow>
         (case json_loads env content of
            Inl e \<Rightarrow> Inl e
          | Inr doc \<Rightarrow>
             (case subscript doc ''segments'' of
                Inl e \<Rightarrow> Inl e
              | Inr output_segments \<Rightarrow> for_x_in_output_segments output_segments)))"

section \<open>Submitting and polling\<close>

definition summary_url :: string where
  "summary_url = ''https://proxy.api.deepaffects.com/text/generic/api/v1/async/summary''"

definition status_url :: string where
  "status_url = ''https://proxy.api.deepaffects.com/transaction/generic/api/v1/async/status''"

definition summary_query :: "env \<Rightarrow> (string \<times> json) list" where
  \<comment> \<open>\<^verbatim>\<open>querystring = {"apikey": APIKEY}\<close>\<close>
  "summary_query env = [(''apikey'', JStr (apikey env))]"

definition status_query :: "env \<Rightarrow> json \<Rightarrow> (string \<times> json) list" where
  \<comment> \<open>\<^verbatim>\<open>querystring = {"apikey": APIKEY, "request_id": request_id}\<close>\<close>
  "status_query env request_id = [(''apikey'', JStr (apikey env)), (''request_id'', request_id)]"

definition read_segments :: "env \<Rightarrow> world \<Rightarrow> string \<Rightarrow> py_error + json" where
  \<comment> \<open>the choice of the parser by \<^verbatim>\<open>os.path.splitext(file_path)[1] == ".json"\<close>\<close>
  "read_segments env w file_path =
     (if snd (splitext file_path) = ''.json''
      then read_json_to_segments env w file_path
      else read_text_to_segments w file_path)"

definition summary_payload :: "json \<Rightarrow> json \<Rightarrow> json" where
  "summary_payload segments model =
     JObj [(''summaryType'', JStr ''abstractive''), (''summaryData'', segments), (''model'', model)]"

definition send_request_try :: "env \<Rightarrow> string \<Rightarrow> json \<Rightarrow> world \<Rightarrow> (py_error + json) \<times> world" where
  \<comment> \<open>the body of the \<^verbatim>\<open>try\<close> block of \<open>send_request\<close>\<close>
  "send_request_try env file_path model w =
     (let querystring = summary_query env
      in case read_segments env w file_path of
           Inl ex \<Rightarrow> (Inl ex, w)
         | Inr segments \<Rightarrow>
            (let payload = summary_payload segments model;
                 w1 = log (HttpPost summary_url querystring payload) w
             in case http_post env summary_url querystring payload of
                  Inl ex \<Rightarrow> (Inl ex, w1)
                | Inr response \<Rightarrow>
                   (case response of
                      Inl ex \<Rightarrow> (Inl ex, w1)
                    | Inr response \<Rightarrow>
                       (case dict_get response ''request_id'' of
                          Inl ex \<Rightarrow> (Inl ex, w1)
                        | Inr request_id \<Rightarrow> (Inr request_id, w1)))))"

definition send_request :: "env \<Rightarrow> string \<Rightarrow> json \<Rightarrow> world \<Rightarrow> (py_error + json) \<times> world" where
  \<comment> \<open>\<^verbatim>\<open>except Exception as ex: print(ex)\<close>, then \<^verbatim>\<open>return None\<close>\<close>
  "send_request env file_path model w =
     (case send_request_try env file_path model w of
        (Inr request_id, w1) \<Rightarrow> (Inr request_id, w1)
      | (Inl ex, w1) \<Rightarrow>
         if is_Exception ex then (Inr JNull, log (PrintExc ex) w1) else (Inl ex, w1))"

definition get_response_try :: "json \<Rightarrow> py_error + json \<Rightarrow> world \<Rightarrow> (py_error + json) \<times> world" where
  \<comment> \<open>the body of the \<^verbatim>\<open>try\<close> block of \<open>get_response\<close>\<close>
  "get_response_try request_id response w =
     (case response of
        Inl ex \<Rightarrow> (Inl ex, w)
      | Inr response \<Rightarrow>
         (case subscript response ''status'' of
            Inl ex \<Rightarrow> (Inl ex, w)
          | Inr (JStr s) \<Rightarrow>
             let status = str_strip (str_lower s)
             in if str_in ''progress'' status
                then (Inr (JStr ''IN PROGRESS''), log (Sleep 10) w)
                else if str_in ''completed'' status
                then (case subscript response ''response'' of
                        Inl ex \<Rightarrow> (Inl ex, w)
                      | Inr r \<Rightarrow>
                         (case subscript r ''response'' of
                            Inl ex \<Rightarrow> (Inl ex, w)
                          | Inr summary \<Rightarrow> (Inr summary, w)))
                else (Inr (JStr ''FAILED''),
                      log (PrintFormat ''request_id: {} status: {}'' [request_id, JStr status]) w)
          | Inr _ \<Rightarrow> (Inl AttributeError, w)))"

definition get_response :: "env \<Rightarrow> json \<Rightarrow> world \<Rightarrow> (py_error + json) \<times> world" where
  \<comment> \<open>\<^verbatim>\<open>requests.get\<close> is called before the \<^verbatim>\<open>try\<close> block is entered\<close>
  "get_response env request_id w =
     (let querystring = status_query env request_id;
          w1 = log (HttpGet status_url querystring) (w\<lparr>polls := Suc (polls w)\<rparr>)
      in case http_get env (polls w) status_url querystring of
           Inl ex \<Rightarrow> (Inl ex, w1)
         | Inr response \<Rightarrow>
            (case get_response_try request_id response w1 of
               (Inr summary, w2) \<Rightarrow> (Inr summary, w2)
             | (Inl ex, w2) \<Rightarrow>
                if is_Exception ex then (Inr (JStr ''FAILED''), log (PrintExc ex) w2)
                else (Inl ex, w2)))"

section \<open>The driver\<close>

definition out_filename :: "string \<Rightarrow> string \<Rightarrow> string" where
  \<comment> \<open>\<^verbatim>\<open>os.path.join(out_folder, os.path.basename(file_name) + ".output.json")\<close>\<close>
  "out_filename out_folder file_name = path_join out_folder (basename file_name @ ''.output.json'')"

partial_function (option) poll_loop ::
  "env \<Rightarrow> string \<Rightarrow> string \<Rightarrow> json \<Rightarrow> world \<Rightarrow> ((py_error + unit) \<times> world) option" where
  "poll_loop env file_name out_folder request_id w =
     (case get_response env request_id w of
        (Inl ex, w1) \<Rightarrow> Some (Inl ex, w1)
      | (Inr response, w1) \<Rightarrow>
         if isinstance_dict response then
           (case write_file env (out_filename out_folder file_name)
                   (json_dumps env (JObj [(''response'', response)])) w1 of
              Inl ex \<Rightarrow> Some (Inl ex, w1)
            | Inr w2 \<Rightarrow>
               Some (Inr (),
                 log (Print (''Output written to '' @ out_filename out_folder file_name))
                   (log (Print (''Completed summary for  file :: '' @ file_name)) w2)))
         else if response = JStr ''FAILED'' then Some (Inr (), w1)
         else poll_loop env file_name out_folder request_id
                (log (Print ''Summarization is in progress'') w1))"

definition process_summary_request ::
  "env \<Rightarrow> string \<Rightarrow> string \<Rightarrow> json \<Rightarrow> world \<Rightarrow> ((py_error + unit) \<times> world) option" where
  "process_summary_request env file_name out_folder model w =
     (case send_request env file_name model (log (Print (''Processing file : '' @ file_name)) w) of
        (Inl ex, w1) \<Rightarrow> Some (Inl ex, w1)
      | (Inr request_id, w1) \<Rightarrow> poll_loop env file_name out_folder request_id w1)"


section \<open>The command line\<close>

subsection \<open>getopt\<close>

text \<open>
  The standard library's \<^verbatim>\<open>getopt.getopt(args, shortopts, longopts)\<close>, function by
  function. The list of options grows at its end, as \<^verbatim>\<open>opts.append\<close> does.
\<close>

fun short_has_arg :: "char \<Rightarrow> string \<Rightarrow> py_error + bool" where
  "short_has_arg opt [] = Inl (GetoptError (''option -'' @ [opt] @ '' not recognized''))"
| "short_has_arg opt (c # cs) =
     (if opt = c \<and> c \<noteq> CHR '':'' then Inr (startswith cs '':'') else short_has_arg opt cs)"

fun do_shorts ::
  "(string \<times> string) list \<Rightarrow> string \<Rightarrow> string \<Rightarrow> string list \<Rightarrow>
   py_error + (string \<times> string) list \<times> string list" where
  "do_shorts opts [] shortopts args = Inr (opts, args)"
| "do_shorts opts (opt # optstring) shortopts args =
     (case short_has_arg opt shortopts of
        Inl e \<Rightarrow> Inl e
      | Inr True \<Rightarrow>
         if optstring = [] then
           (case args of
              [] \<Rightarrow> Inl (GetoptError (''option -'' @ [opt] @ '' requires argument''))
            | a # args' \<Rightarrow> Inr (opts @ [(''-'' @ [opt], a)], args'))
         else Inr (opts @ [(''-'' @ [opt], optstring)], args)
      | Inr False \<Rightarrow> do_shorts (opts @ [(''-'' @ [opt], [])]) optstring shortopts args)"

definition long_has_args :: "string \<Rightarrow> string list \<Rightarrow> py_error + bool \<times> string" where
  "long_has_args opt longopts =
     (let possibilities = filter (\<lambda>o'. startswith o' opt) longopts
      in if possibilities = [] then Inl (GetoptError (''option --'' @ opt @ '' not recognized''))
         else if opt \<in> set possibilities then Inr (False, opt)
         else if opt @ ''='' \<in> set possibilities then Inr (True, opt)
         else if length possibilities > 1
         then Inl (GetoptError (''option --'' @ opt @ '' not a unique prefix''))
         else
           let unique_match = hd possibilities;
               has_arg = endswith unique_match ''=''
           in Inr (has_arg, if has_arg then butlast unique_match else unique_match))"

definition do_longs ::
  "(string \<times> string) list \<Rightarrow> string \<Rightarrow> string list \<Rightarrow> string list \<Rightarrow>
   py_error + (string \<times> string) list \<times> string list" where
  "do_longs opts opt0 longopts args =
     (let (opt, optarg) =
            (case str_find ''='' opt0 of
               None \<Rightarrow> (opt0, None)
             | Some i \<Rightarrow> (take i opt0, Some (drop (Suc i) opt0)))
      in case long_has_args opt longopts of
           Inl e \<Rightarrow> Inl e
         | Inr (has_arg, opt) \<Rightarrow>
            if has_arg then
              (case optarg of
                 None \<Rightarrow>
                  (case args of
                     [] \<Rightarrow> Inl (GetoptError (''option --'' @ opt @ '' requires argument''))
                   | a # args' \<Rightarrow> Inr (opts @ [(''--'' @ opt, a)], args'))
               | Some a \<Rightarrow> Inr (opts @ [(''--'' @ opt, a)], args))
            else
              (case optarg of
                 Some a \<Rightarrow> Inl (GetoptError (''option --'' @ opt @ '' must not have an argument''))
               | None \<Rightarrow> Inr (opts @ [(''--'' @ opt, [])], args)))"

function getopt_loop ::
  "(string \<times> string) list \<Rightarrow> string list \<Rightarrow> string \<Rightarrow> string list \<Rightarrow>
   py_error + (string \<times> string) list \<times> string list" where
  "getopt_loop opts [] shortopts longopts = Inr (opts, [])"
| "getopt_loop opts (a # args) shortopts longopts =
     (if startswith a ''-'' \<and> a \<noteq> ''-'' then
        if a = ''--'' then Inr (opts, args)
        else if startswith a ''--'' then
          (case do_longs opts (drop 2 a) longopts args of
             Inl e \<Rightarrow> Inl e
           | Inr (opts', args') \<Rightarrow> getopt_loop opts' args' shortopts longopts)
        else
          (case do_shorts opts (drop 1 a) shortopts args of
             Inl e \<Rightarrow> Inl e
           | Inr (opts', args') \<Rightarrow> getopt_loop opts' args' shortopts longopts)
      else Inr (opts, a # args))"
  by pat_completeness auto
termination
proof (relation "measure (\<lambda>(opts, args, shortopts, longopts). length args)")
  have shorts: "length args' \<le> length args"
    if "do_shorts opts optstring shortopts args = Inr (opts', args')"
    for opts optstring shortopts args opts' args'
    using that
    by (induction opts optstring shortopts args rule: do_shorts.induct)
       (auto split: sum.splits bool.splits if_splits list.splits)
  have longs: "length args' \<le> length args"
    if "do_longs opts opt0 longopts args = Inr (opts', args')"
    for opts opt0 longopts args opts' args'
    using that
    by (auto simp: do_longs_def Let_def
             split: sum.splits prod.splits option.splits if_splits list.splits)
  show "wf (measure (\<lambda>(opts, args, shortopts, longopts). length args))"
    by simp
  show "((opts', args', shortopts, longopts), opts, a # args, shortopts, longopts)
          \<in> measure (\<lambda>(opts, args, shortopts, longopts). length args)"
    if "do_longs opts (drop 2 a) longopts args = Inr x2" and "(opts', args') = x2"
    for opts :: "(string \<times> string) list" and a :: string and args :: "string list"
      and shortopts :: string and longopts :: "string list" and x2 opts' args'
    using that longs [of opts "drop 2 a" longopts args opts' args'] by simp
  show "((opts', args', shortopts, longopts), opts, a # args, shortopts, longopts)
          \<in> measure (\<lambda>(opts, args, shortopts, longopts). length args)"
    if "do_shorts opts (drop 1 a) shortopts args = Inr x2" and "(opts', args') = x2"
    for opts :: "(string \<times> string) list" and a :: string and args :: "string list"
      and shortopts :: string and longopts :: "string list" and x2 opts' args'
    using that shorts [of opts "drop 1 a" shortopts args opts' args'] by simp
qed

definition getopt ::
  "string list \<Rightarrow> string \<Rightarrow> string list \<Rightarrow> py_error + (string \<times> string) list \<times> string list" where
  "getopt args shortopts longopts = getopt_loop [] args shortopts longopts"


definition registered :: "string \<Rightarrow> string list \<Rightarrow> string set" where
  \<comment> \<open>the option names that \<open>getopt\<close> can return for the given short and long options\<close>
  "registered shortopts longopts =
     {''-'' @ [c] | c. c \<in> set shortopts \<and> c \<noteq> CHR '':''} \<union>
     {''--'' @ name | name. name \<in> set longopts \<or> name @ ''='' \<in> set longopts}"

subsection \<open>The main block\<close>

datatype outcome = Exit int | Raised py_error | Finished

definition usage :: "string \<Rightarrow> world \<Rightarrow> world" where
  "usage prog w =
     fold (\<lambda>s. log (Print s))
       [''Usage: '' @ prog @ '' [options]'',
        ''Options:'',
        ''-i --input_file_path=    Must be valid txt or json file path of the transcript'',
        ''-o --output_folder=      Must be valid directory where the summary output json would be written'',
        ''-m --model=              [default: iamus]. Must be iamus or cassandra'']
       w"

definition option_step ::
  "string \<times> string \<Rightarrow> string option \<times> string option \<times> json \<Rightarrow>
   string option \<times> string option \<times> json" where
  \<comment> \<open>the body of \<^verbatim>\<open>for opt, arg in opts\<close>, on the variables input_file_path,
      output_folder and model\<close>
  "option_step oa vars =
     (let opt = fst oa; arg = snd oa;
          input_file_path = fst vars; output_folder = fst (snd vars); model = snd (snd vars)
      in if opt = ''-i'' \<or> opt = ''--input_file_path''
         then (Some arg, output_folder, model)
         else if opt = ''-o'' \<or> opt = ''--output_folder''
         then (input_file_path, Some arg, model)
         else if opt = ''-m'' \<or> opt = ''--model''
         then (input_file_path, output_folder, JStr arg)
         else (input_file_path, output_folder, model))"

definition option_loop ::
  "(string \<times> string) list \<Rightarrow> string option \<times> string option \<times> json \<Rightarrow>
   string option \<times> string option \<times> json" where
  "option_loop opts vars = fold option_step opts vars"

definition call_process_summary_request ::
  "env \<Rightarrow> json list \<Rightarrow> world \<Rightarrow> ((py_error + unit) \<times> world) option" where
  \<comment> \<open>a call with positional arguments: \<open>process_summary_request\<close> has the three parameters
      file_name, out_folder and model, none with a default, and any other number of
      arguments raises before its body runs. The script passes its paths as strings.\<close>
  "call_process_summary_request env args w =
     (case args of
        [JStr file_name, JStr out_folder, model] \<Rightarrow>
          process_summary_request env file_name out_folder model w
      | _ \<Rightarrow> Some (Inl TypeError, w))"

definition main :: "env \<Rightarrow> string \<Rightarrow> string list \<Rightarrow> world \<Rightarrow> (outcome \<times> world) option" where
  \<comment> \<open>\<^verbatim>\<open>sys.argv\<close> is \<open>prog # args\<close>\<close>
  "main env prog args w =
     (if str_in (apikey env) ''YOUR_API_KEY''
      then Some (Exit 0, log (Print ''Please update your valid api key'') w)
      else
        case getopt args ''i:o:'' [''input_file_path='', ''output_folder=''] of
          Inl (GetoptError err) \<Rightarrow>
            Some (Exit 2,
              if length (prog # args) > 1 then
                if \<not> ((prog # args) ! 1 \<in> {''-h'', ''--help''})
                then log (Print (prog @ '': Try --help or -h for usage details.''))
                       (log (Print (prog @ '': '' @ err)) w)
                else usage prog w
              else w)
        | Inl ex \<Rightarrow> Some (Raised ex, w)
        | Inr (opts, rest) \<Rightarrow>
           (case option_loop opts (None, None, JNull) of
              (input_file_path, output_folder, model) \<Rightarrow>
                if input_file_path = None \<or> length (the input_file_path) \<le> 0 \<or>
                   output_folder = None \<or> length (the output_folder) \<le> 0
                then Some (Exit 2, usage prog w)
                else if \<not> (endswith (the input_file_path) ''.json'' \<or>
                             endswith (the input_file_path) ''.txt'')
                then Some (Exit 2,
                       log (Print ''Invalid input file. Should be either json or txt file'') w)
                else if model \<notin> {JStr ''cassandra'', JStr ''iamus''}
                then Some (Exit 2,
                       log (Print ''Invalid model param. Should be either cassandra or iamus'') w)
                else if \<not> isdir env (the output_folder)
                then Some (Exit 2,
                       log (Print ''Invalid output folder. Output folder does not exists'') w)
                else
                  (case call_process_summary_request env
                          [JStr (the input_file_path), JStr (the output_folder)] w of
                     None \<Rightarrow> None
                   | Some (Inl ex, w1) \<Rightarrow> Some (Raised ex, w1)
                   | Some (Inr u, w1) \<Rightarrow> Some (Finished, w1))))"


section \<open>Poller replies and example environments\<close>

text \<open>
  The answers of the status endpoint, as \<open>get_response\<close> reads them: the status string
  after \<^verbatim>\<open>lower().strip()\<close>, and the three kinds of answer the claims speak of.
\<close>

fun reply_status :: "py_error + (py_error + json) \<Rightarrow> string option" where
  "reply_status (Inr (Inr (JObj kvs))) =
     (case map_of kvs ''status'' of
        Some (JStr s) \<Rightarrow> Some (str_strip (str_lower s))
      | _ \<Rightarrow> None)"
| "reply_status _ = None"

definition reply_in_progress :: "py_error + (py_error + json) \<Rightarrow> bool" where
  "reply_in_progress reply =
     (case reply_status reply of None \<Rightarrow> False | Some status \<Rightarrow> str_in ''progress'' status)"

definition reply_unrecognized :: "py_error + (py_error + json) \<Rightarrow> bool" where
  "reply_unrecognized reply =
     (case reply_status reply of
        None \<Rightarrow> False
      | Some status \<Rightarrow> \<not> str_in ''progress'' status \<and> \<not> str_in ''completed'' status)"

fun reply_result :: "py_error + (py_error + json) \<Rightarrow> json option" where
  \<comment> \<open>the value at \<^verbatim>\<open>response['response']['response']\<close> of a JSON object\<close>
  "reply_result (Inr (Inr (JObj kvs))) =
     (case map_of kvs ''response'' of
        Some (JObj kvs') \<Rightarrow> map_of kvs' ''response''
      | _ \<Rightarrow> None)"
| "reply_result _ = None"

definition reply_completed :: "py_error + (py_error + json) \<Rightarrow> json \<Rightarrow> bool" where
  \<comment> \<open>a completed answer that carries the result object \<open>result\<close>\<close>
  "reply_completed reply result =
     (case reply_status reply of
        None \<Rightarrow> False
      | Some status \<Rightarrow>
          \<not> str_in ''progress'' status \<and> str_in ''completed'' status \<and>
          reply_result reply = Some result \<and> isinstance_dict result)"

definition poll_reply :: "env \<Rightarrow> json \<Rightarrow> nat \<Rightarrow> py_error + (py_error + json)" where
  \<comment> \<open>the answer to the status request made after \<open>n\<close> earlier ones\<close>
  "poll_reply env request_id n = http_get env n status_url (status_query env request_id)"

text \<open>Concrete answers, environments and worlds, for the examples.\<close>

definition in_progress_reply :: "py_error + (py_error + json)" where
  "in_progress_reply = Inr (Inr (JObj [(''status'', JStr ''In Progress'')]))"

definition errored_reply :: "py_error + (py_error + json)" where
  "errored_reply = Inr (Inr (JObj [(''status'', JStr ''errored'')]))"

definition demo_summary :: json where
  "demo_summary = JObj [(''summary'', JStr ''ok'')]"

definition completed_reply :: "py_error + (py_error + json)" where
  "completed_reply =
     Inr (Inr (JObj [(''status'', JStr ''Completed''),
                     (''response'', JObj [(''response'', demo_summary)])]))"

definition quoted :: "string \<Rightarrow> string" where
  "quoted s = [CHR 0x22] @ s @ [CHR 0x22]"

definition demo_json_text :: string where
  \<comment> \<open>the text \<^verbatim>\<open>{"segments":[{"speaker_id":"0","text":"hi"}]}\<close>\<close>
  "demo_json_text =
     ''{'' @ quoted ''segments'' @ '':[{'' @ quoted ''speaker_id'' @ '':'' @ quoted ''0'' @ '','' @
     quoted ''text'' @ '':'' @ quoted ''hi'' @ ''}]}''"

definition demo_json_doc :: json where
  "demo_json_doc =
     JObj [(''segments'', JArr [JObj [(''speaker_id'', JStr ''0''), (''text'', JStr ''hi'')]])]"

definition demo_env :: "(nat \<Rightarrow> py_error + (py_error + json)) \<Rightarrow> env" where
  \<comment> \<open>a provider that accepts the request as \<open>r1\<close> and answers the polls by \<open>replies\<close>\<close>
  "demo_env replies =
     \<lparr>apikey = ''KEY'',
      json_loads = (\<lambda>s. if s = demo_json_text then Inr demo_json_doc else Inl JSONDecodeError),
      json_dumps = (\<lambda>j. if j = JObj [(''response'', demo_summary)]
                         then ''{'' @ quoted ''response'' @ '': {'' @ quoted ''summary'' @ '': '' @
                              quoted ''ok'' @ ''}}''
                         else ''null''),
      http_post = (\<lambda>url query payload. Inr (Inr (JObj [(''request_id'', JStr ''r1'')]))),
      http_get = (\<lambda>n url query. replies n),
      can_write = (\<lambda>path. True),
      isdir = (\<lambda>path. True)\<rparr>"

definition offline_env :: env where
  \<comment> \<open>no network: every request raises\<close>
  "offline_env =
     (demo_env (\<lambda>n. Inl RequestException))
       \<lparr>http_post := (\<lambda>url query payload. Inl RequestException)\<rparr>"

definition demo_transcript :: string where
  "demo_transcript =
     ''speaker_3 : 00:00:01.0 - 00:00:02.0 : hello world'' @ [LF] @ [LF] @
     ''speaker_1 : hi there'' @ [LF]"

definition demo_bad_line :: string where
  "demo_bad_line = ''no separator here'' @ [LF]"

definition demo_bad_transcript :: string where
  "demo_bad_transcript = ''speaker_1 : hi'' @ [LF] @ demo_bad_line"

definition demo_world :: world where
  "demo_world =
     \<lparr>files = [''call1.txt'' \<mapsto> demo_transcript,
               ''call2.json'' \<mapsto> demo_json_text,
               ''bad.txt'' \<mapsto> demo_bad_transcript],
      trace = [],
      polls = 0\<rparr>"

text \<open>The worlds along a run of the polling loop, and the events that count.\<close>

definition polled :: "env \<Rightarrow> json \<Rightarrow> world \<Rightarrow> world" where
  \<comment> \<open>the world once one more status request has been sent\<close>
  "polled env request_id w =
     log (HttpGet status_url (status_query env request_id)) (w\<lparr>polls := Suc (polls w)\<rparr>)"

definition in_progress_step :: "env \<Rightarrow> json \<Rightarrow> world \<Rightarrow> world" where
  \<comment> \<open>one turn of the loop on an answer in progress: the request, the pause, the message\<close>
  "in_progress_step env request_id w =
     log (Print ''Summarization is in progress'') (log (Sleep 10) (polled env request_id w))"

fun is_write :: "event \<Rightarrow> bool" where
  "is_write (FileWrite path content) = True"
| "is_write _ = False"

fun is_poll :: "event \<Rightarrow> bool" where
  "is_poll (HttpGet url query) = True"
| "is_poll _ = False"

section \<open>Properties\<close>

subsection \<open>The poller\<close>

lemma get_response_http_raises:
  "poll_reply env request_id (polls w) = Inl ex \<Longrightarrow>
   get_response env request_id w =
     (Inl ex, log (HttpGet status_url (status_query env request_id)) (w\<lparr>polls := Suc (polls w)\<rparr>))"
  by (simp add: get_response_def poll_reply_def Let_def)

lemma get_response_try_caught:
  "poll_reply env request_id (polls w) = Inr response \<Longrightarrow>
   get_response_try request_id response
     (log (HttpGet status_url (status_query env request_id)) (w\<lparr>polls := Suc (polls w)\<rparr>)) = (Inl ex, w2) \<Longrightarrow>
   is_Exception ex \<Longrightarrow>
   get_response env request_id w = (Inr (JStr ''FAILED''), log (PrintExc ex) w2)"
  by (simp add: get_response_def poll_reply_def Let_def)

text \<open>
  C3. \<open>get_response\<close> is to return \<^verbatim>\<open>"FAILED"\<close> on any exception of the HTTP status call,
  with no exception reaching its caller. In the code \<^verbatim>\<open>requests.get\<close> stands before the
  \<^verbatim>\<open>try\<close> block: when the network is down, the exception of the call leaves
  \<open>get_response\<close>, and \<^verbatim>\<open>"FAILED"\<close> is not returned.
\<close>

theorem get_response_http_error_propagates:
  "fst (get_response offline_env (JStr ''r1'') demo_world) = Inl RequestException \<and>
   fst (get_response offline_env (JStr ''r1'') demo_world) \<noteq> Inr (JStr ''FAILED'')"
  by (simp add: get_response_def offline_env_def demo_env_def demo_world_def Let_def)


subsection \<open>The JSON transcript parser\<close>

lemma map_of_dict_set: "map_of (dict_set kvs k v) = (map_of kvs)(k \<mapsto> v)"
  by (induction kvs) (auto simp: fun_eq_iff)

lemma copy_speaker_ids_length:
  "copy_speaker_ids xs = Inr ys \<Longrightarrow> length ys = length xs"
  by (induction xs arbitrary: ys) (auto split: sum.splits)

lemma copy_speaker_ids_nth:
  "copy_speaker_ids xs = Inr ys \<Longrightarrow> i < length xs \<Longrightarrow> copy_speaker_id (xs ! i) = Inr (ys ! i)"
  by (induction xs arbitrary: ys i) (auto split: sum.splits simp: nth_Cons split: nat.splits)

lemma copy_speaker_ids_total:
  "\<forall>x\<in>set xs. \<exists>kvs v. x = JObj kvs \<and> map_of kvs ''speaker_id'' = Some v \<Longrightarrow>
   \<exists>ys. copy_speaker_ids xs = Inr ys"
  by (induction xs) auto

lemma copy_speaker_id_maps:
  "copy_speaker_id x = Inr y \<Longrightarrow>
   \<exists>kvs kvs'. x = JObj kvs \<and> y = JObj kvs' \<and>
      map_of kvs' = (map_of kvs)(''speakerId'' := map_of kvs ''speaker_id'')"
  by (cases x) (auto simp: map_of_dict_set split: option.splits)

lemma read_json_to_segments_array:
  assumes "files w file_path = Some content" and "json_loads env content = Inr (JObj doc)"
    and "map_of doc ''segments'' = Some (JArr xs)"
    and "\<forall>x\<in>set xs. \<exists>kvs v. x = JObj kvs \<and> map_of kvs ''speaker_id'' = Some v"
  shows "\<exists>ys. read_json_to_segments env w file_path = Inr (JArr ys) \<and> length ys = length xs \<and>
          (\<forall>i<length xs. \<exists>kvs kvs'. xs ! i = JObj kvs \<and> ys ! i = JObj kvs' \<and>
              map_of kvs' = (map_of kvs)(''speakerId'' := map_of kvs ''speaker_id''))"
proof -
  obtain ys where ys: "copy_speaker_ids xs = Inr ys"
    using copy_speaker_ids_total [OF assms(4)] by blast
  have "read_json_to_segments env w file_path = Inr (JArr ys)"
    using assms(1-3) ys by (simp add: read_json_to_segments_def open_read_def)
  moreover have "length ys = length xs"
    using ys by (rule copy_speaker_ids_length)
  moreover have "\<exists>kvs kvs'. xs ! i = JObj kvs \<and> ys ! i = JObj kvs' \<and>
      map_of kvs' = (map_of kvs)(''speakerId'' := map_of kvs ''speaker_id'')" if "i < length xs" for i
    using copy_speaker_id_maps [OF copy_speaker_ids_nth [OF ys that]] .
  ultimately show ?thesis by blast
qed

lemma read_json_to_segments_no_key:
  "files w file_path = Some content \<Longrightarrow> json_loads env content = Inr (JObj doc) \<Longrightarrow>
   map_of doc ''segments'' = None \<Longrightarrow>
   read_json_to_segments env w file_path = Inl (KeyError ''segments'')"
  by (simp add: read_json_to_segments_def open_read_def)

text \<open>
  C10. For a JSON file whose document has a top-level \<open>segments\<close> array of objects that each
  hold \<open>speaker_id\<close>, \<open>read_json_to_segments\<close> returns an array of the same length, in the
  same order, whose i-th object is the i-th input object with \<open>speakerId\<close> set to the value
  of \<open>speaker_id\<close> and every other key as it was. When the document has no \<open>segments\<close> key,
  the function fails with a \<open>KeyError\<close>.
\<close>

theorem read_json_to_segments_copies_speaker_id:
  "(files w file_path = Some content \<and> json_loads env content = Inr (JObj doc) \<and>
    map_of doc ''segments'' = Some (JArr xs) \<and>
    (\<forall>x\<in>set xs. \<exists>kvs v. x = JObj kvs \<and> map_of kvs ''speaker_id'' = Some v) \<longrightarrow>
      (\<exists>ys. read_json_to_segments env w file_path = Inr (JArr ys) \<and> length ys = length xs \<and>
          (\<forall>i<length xs. \<exists>kvs kvs'. xs ! i = JObj kvs \<and> ys ! i = JObj kvs' \<and>
              map_of kvs' = (map_of kvs)(''speakerId'' := map_of kvs ''speaker_id'')))) \<and>
   (files w file_path = Some content \<and> json_loads env content = Inr (JObj doc) \<and>
    map_of doc ''segments'' = None \<longrightarrow>
      read_json_to_segments env w file_path = Inl (KeyError ''segments''))"
  using read_json_to_segments_array [of w file_path content env doc xs]
    read_json_to_segments_no_key [of w file_path content env doc]
  by blast

text \<open>
  The example of the specification: \<^verbatim>\<open>{"segments":[{"speaker_id":"0","text":"hi"}]}\<close>
  yields the one object with the keys \<open>speaker_id\<close>, \<open>text\<close> and \<open>speakerId\<close>; a document
  \<^verbatim>\<open>{}\<close> fails.
\<close>

theorem read_json_to_segments_copies_speaker_id_witness:
  "files demo_world ''call2.json'' = Some demo_json_text \<and>
   json_loads (demo_env (\<lambda>n. errored_reply)) demo_json_text = Inr demo_json_doc \<and>
   read_json_to_segments (demo_env (\<lambda>n. errored_reply)) demo_world ''call2.json'' =
     Inr (JArr [JObj [(''speaker_id'', JStr ''0''), (''text'', JStr ''hi''),
                      (''speakerId'', JStr ''0'')]]) \<and>
   (\<exists>ys. read_json_to_segments (demo_env (\<lambda>n. errored_reply)) demo_world ''call2.json'' =
           Inr (JArr ys) \<and> length ys = 1) \<and>
   read_json_to_segments ((demo_env (\<lambda>n. errored_reply))\<lparr>json_loads := \<lambda>s. Inr (JObj [])\<rparr>)
       demo_world ''call2.json'' = Inl (KeyError ''segments'')"
  using read_json_to_segments_copies_speaker_id
      [of demo_world "''call2.json''" demo_json_text "demo_env (\<lambda>n. errored_reply)"
          "[(''segments'', JArr [JObj [(''speaker_id'', JStr ''0''), (''text'', JStr ''hi'')]])]"
          "[JObj [(''speaker_id'', JStr ''0''), (''text'', JStr ''hi'')]]"]
    read_json_to_segments_copies_speaker_id
      [of demo_world "''call2.json''" demo_json_text
          "(demo_env (\<lambda>n. errored_reply))\<lparr>json_loads := \<lambda>s. Inr (JObj [])\<rparr>" "[]"]
  by (simp add: read_json_to_segments_def open_read_def demo_env_def demo_world_def
        demo_json_doc_def)


subsection \<open>The text transcript parser\<close>

lemma startswith_sep: "startswith (c # cs) '': '' \<longleftrightarrow> c = CHR '':'' \<and> cs \<noteq> [] \<and> hd cs = CHR '' ''"
  by (cases cs) (auto simp: startswith_def)

lemma str_find_first:
  "CHR '':'' \<notin> set a \<Longrightarrow> str_find '': '' (a @ '': '' @ b) = Some (length a)"
  by (induction a) (auto simp: startswith_sep startswith_def)

lemma str_rfind_None_iff: "str_rfind '': '' s = None \<longleftrightarrow> str_find '': '' s = None"
  by (induction s) (auto split: option.splits)

lemma str_rfind_append:
  "str_rfind '': '' b = Some i \<Longrightarrow> str_rfind '': '' (a @ b) = Some (length a + i)"
  by (induction a) auto

lemma str_rfind_last:
  assumes "str_find '': '' b = None"
  shows "str_rfind '': '' (a @ '': '' @ b) = Some (length a)"
proof -
  have "str_rfind '': '' b = None"
    using assms by (simp add: str_rfind_None_iff)
  then have "str_rfind '': '' ('': '' @ b) = Some 0"
    by (simp add: startswith_sep startswith_def)
  then show ?thesis
    using str_rfind_append [of "'': '' @ b" 0 a] by simp
qed

lemma dropWhile_length_less:
  "xs \<noteq> [] \<Longrightarrow> P (hd xs) \<Longrightarrow> length (dropWhile P xs) < length xs"
  by (cases xs) (auto simp: less_Suc_eq_le length_dropWhile_le)

lemma str_strip_fixed:
  assumes "str_strip s = s" and "s \<noteq> []"
  shows "\<not> isspace (hd s) \<and> \<not> isspace (last s)"
proof -
  have le: "length (str_strip s) \<le> length (dropWhile isspace s)"
    unfolding str_strip_def
    by (metis length_dropWhile_le length_rev)
  have a: "\<not> isspace (hd s)"
  proof
    assume "isspace (hd s)"
    then have "length (dropWhile isspace s) < length s"
      using dropWhile_length_less assms(2) by blast
    with le assms(1) show False by simp
  qed
  then have eq: "dropWhile isspace s = s"
    using assms(2) by (cases s) auto
  have b: "\<not> isspace (last s)"
  proof
    assume "isspace (last s)"
    then have "isspace (hd (rev s))"
      using assms(2) by (simp add: hd_rev)
    then have "length (dropWhile isspace (rev s)) < length (rev s)"
      using dropWhile_length_less [of "rev s" isspace] assms(2) by simp
    then have "length (str_strip s) < length s"
      by (simp add: str_strip_def eq)
    with assms(1) show False by simp
  qed
  from a b show ?thesis by simp
qed

lemma str_strip_core:
  assumes "s \<noteq> []" and "\<not> isspace (hd s)" and "\<not> isspace (last s)" and "\<forall>c\<in>set ws. isspace c"
  shows "str_strip (s @ ws) = s"
proof -
  have 1: "dropWhile isspace (s @ ws) = s @ ws"
    using assms(1,2) by (cases s) auto
  have 2: "dropWhile isspace (rev ws @ rev s) = dropWhile isspace (rev s)"
    using assms(4) by (simp add: dropWhile_append)
  have 3: "dropWhile isspace (rev s) = rev s"
    using assms(1,3) by (cases "rev s") (auto simp: last_rev hd_rev)
  show ?thesis
    by (simp add: str_strip_def 1 2 3)
qed


lemma parse_line_blank: "str_strip l = [] \<Longrightarrow> parse_line l = Inr None"
  by (simp add: parse_line_def)

lemma parse_line_no_sep:
  "str_strip l \<noteq> [] \<Longrightarrow> \<not> str_in '': '' (str_strip l) \<Longrightarrow> parse_line l = Inl IndexError"
  by (simp add: parse_line_def Let_def split1_def str_in_def index_list_def)

lemma parse_line_sep:
  "str_strip l \<noteq> [] \<Longrightarrow> str_find '': '' (str_strip l) = Some i \<Longrightarrow>
   parse_line l = Inr (Some (segment (get_speaker_id (take i (str_strip l)))
                       (str_strip (case str_rfind '': '' (drop (i + 2) (str_strip l)) of
                                     None \<Rightarrow> drop (i + 2) (str_strip l)
                                   | Some j \<Rightarrow> drop (j + 2) (drop (i + 2) (str_strip l))))))"
  by (simp add: parse_line_def Let_def split1_def rsplit1_def index_list_def split: option.splits)

lemma parse_line_error: "parse_line l = Inl e \<Longrightarrow> e = IndexError"
  by (auto simp: parse_line_def Let_def index_list_def split1_def rsplit1_def
           split: option.splits if_splits sum.splits)

lemma read_text_lines_acc:
  "read_text_lines ls acc =
     (case read_text_lines ls [] of Inl e \<Rightarrow> Inl e | Inr segs \<Rightarrow> Inr (acc @ segs))"
proof (induction ls arbitrary: acc)
  case Nil
  then show ?case by simp
next
  case (Cons l ls)
  show ?case
  proof (cases "parse_line l")
    case (Inl e)
    then show ?thesis by simp
  next
    case (Inr r)
    then show ?thesis
      using Cons.IH [of acc] Cons.IH [of "acc @ [the r]"] Cons.IH [of "[the r]"]
      by (cases r) (auto split: sum.splits)
  qed
qed

lemma read_text_lines_Cons:
  "read_text_lines (l # ls) [] =
     (case parse_line l of
        Inl e \<Rightarrow> Inl e
      | Inr None \<Rightarrow> read_text_lines ls []
      | Inr (Some seg) \<Rightarrow>
          (case read_text_lines ls [] of Inl e \<Rightarrow> Inl e | Inr segs \<Rightarrow> Inr (seg # segs)))"
  using read_text_lines_acc [of ls "[the (projr (parse_line l))]"]
  by (auto split: sum.splits option.splits)

lemma read_text_lines_well_formed:
  "\<forall>l\<in>set ls. str_strip l = [] \<or> str_in '': '' (str_strip l) \<Longrightarrow>
   \<exists>segs. read_text_lines ls [] = Inr segs \<and>
      length segs = length (filter (\<lambda>l. str_strip l \<noteq> []) ls) \<and>
      (\<forall>i<length segs. parse_line (filter (\<lambda>l. str_strip l \<noteq> []) ls ! i) = Inr (Some (segs ! i)))"
proof (induction ls)
  case Nil
  then show ?case by simp
next
  case (Cons l ls)
  then obtain segs where segs: "read_text_lines ls [] = Inr segs"
    "length segs = length (filter (\<lambda>l. str_strip l \<noteq> []) ls)"
    "\<forall>i<length segs. parse_line (filter (\<lambda>l. str_strip l \<noteq> []) ls ! i) = Inr (Some (segs ! i))"
    by auto
  show ?case
  proof (cases "str_strip l = []")
    case True
    then show ?thesis
      using segs by (simp add: read_text_lines_Cons parse_line_blank del: read_text_lines.simps)
  next
    case False
    then obtain i where "str_find '': '' (str_strip l) = Some i"
      using Cons.prems by (auto simp: str_in_def)
    then obtain seg where seg: "parse_line l = Inr (Some seg)"
      using parse_line_sep [OF False] by blast
    have "\<forall>i<length (seg # segs).
        parse_line (filter (\<lambda>l. str_strip l \<noteq> []) (l # ls) ! i) = Inr (Some ((seg # segs) ! i))"
      using segs(3) seg False by (auto simp: nth_Cons split: nat.splits)
    then show ?thesis
      using segs(1,2) seg False
      by (simp add: read_text_lines_Cons del: read_text_lines.simps)
  qed
qed

lemma read_text_lines_blank:
  "str_strip l = [] \<Longrightarrow> read_text_lines (xs @ l # ys) acc = read_text_lines (xs @ ys) acc"
  by (induction xs arbitrary: acc) (auto simp: parse_line_blank split: sum.splits option.splits)

lemma read_text_lines_malformed:
  "l \<in> set ls \<Longrightarrow> str_strip l \<noteq> [] \<Longrightarrow> \<not> str_in '': '' (str_strip l) \<Longrightarrow>
   read_text_lines ls acc = Inl IndexError"
proof (induction ls arbitrary: acc)
  case Nil
  then show ?case by simp
next
  case (Cons a ls)
  show ?case
  proof (cases "parse_line a")
    case (Inl e)
    then show ?thesis using parse_line_error [OF Inl] by simp
  next
    case (Inr r)
    then have "a \<noteq> l"
      using parse_line_no_sep [OF Cons.prems(2,3)] by auto
    then have "l \<in> set ls" using Cons.prems(1) by simp
    then show ?thesis
      using Cons.IH Cons.prems(2,3) Inr by (cases r) auto
  qed
qed


lemma not_isspace_speaker [simp]: "\<not> isspace CHR ''s''" "\<not> isspace CHR ''_''" "isspace CHR '' ''" "isspace LF"
  by (simp_all add: isspace_def LF_def)

lemma label_speaker_id:
  assumes "str_strip L = L"
  shows "get_speaker_id (''speaker_'' @ L @ '' '') = L"
proof -
  have "\<not> isspace (last (''speaker_'' @ L))"
    using str_strip_fixed [OF assms] by (cases "L = []") simp_all
  then have "str_strip ((''speaker_'' @ L) @ '' '') = ''speaker_'' @ L"
    by (intro str_strip_core) simp_all
  then show ?thesis
    by (simp add: get_speaker_id_def startswith_def)
qed

lemma parse_line_split:
  assumes "str_strip l = a @ '': '' @ R" and "CHR '':'' \<notin> set a"
  shows "parse_line l =
     Inr (Some (segment (get_speaker_id a)
       (str_strip (case str_rfind '': '' R of None \<Rightarrow> R | Some j \<Rightarrow> drop (j + 2) R))))"
proof -
  have ne: "str_strip l \<noteq> []"
    by (simp add: assms(1))
  have find: "str_find '': '' (str_strip l) = Some (length a)"
    unfolding assms(1) using assms(2) by (rule str_find_first)
  have t: "take (length a) (a @ '': '' @ R) = a"
    by simp
  have d: "drop (length a + 2) (a @ '': '' @ R) = R"
    by simp
  show ?thesis
    using parse_line_sep [OF ne find] unfolding assms(1) t d .
qed

lemma parse_line_fields:
  assumes L: "CHR '':'' \<notin> set L" "str_strip L = L"
    and X: "X \<noteq> []" "str_strip X = X"
    and ws: "\<forall>c\<in>set ws. isspace c"
    and R: "last R = last X" "R \<noteq> []"
      "str_strip (case str_rfind '': '' R of None \<Rightarrow> R | Some j \<Rightarrow> drop (j + 2) R) = X"
  shows "parse_line (''speaker_'' @ L @ '' : '' @ R @ ws) = Inr (Some (segment L X))"
proof -
  define a where "a = ''speaker_'' @ L @ '' ''"
  have line: "''speaker_'' @ L @ '' : '' @ R @ ws = (a @ '': '' @ R) @ ws"
    by (simp add: a_def)
  have "\<not> isspace (last (a @ '': '' @ R))"
    using str_strip_fixed [OF X(2,1)] R(1,2) by simp
  moreover have "\<not> isspace (hd (a @ '': '' @ R))"
    by (simp add: a_def)
  ultimately have strip: "str_strip ((a @ '': '' @ R) @ ws) = a @ '': '' @ R"
    using ws by (intro str_strip_core) simp_all
  have "CHR '':'' \<notin> set a"
    using L(1) by (simp add: a_def)
  then have "parse_line ((a @ '': '' @ R) @ ws) =
     Inr (Some (segment (get_speaker_id a)
       (str_strip (case str_rfind '': '' R of None \<Rightarrow> R | Some j \<Rightarrow> drop (j + 2) R))))"
    using strip by (intro parse_line_split)
  then show ?thesis
    unfolding line R(3) using label_speaker_id [OF L(2)] by (simp add: a_def)
qed

lemma parse_line_three_fields:
  assumes "CHR '':'' \<notin> set L" "str_strip L = L" "X \<noteq> []" "str_strip X = X"
    "\<not> str_in '': '' X" "\<forall>c\<in>set ws. isspace c"
  shows "parse_line (''speaker_'' @ L @ '' : '' @ T @ '' : '' @ X @ ws) = Inr (Some (segment L X))"
proof -
  have "str_rfind '': '' ((T @ '' '') @ '': '' @ X) = Some (length (T @ '' ''))"
    using assms(5) by (intro str_rfind_last) (simp add: str_in_def)
  then have "str_strip (case str_rfind '': '' (T @ '' : '' @ X) of None \<Rightarrow> T @ '' : '' @ X
               | Some j \<Rightarrow> drop (j + 2) (T @ '' : '' @ X)) = X"
    using assms(4) by simp
  then show ?thesis
    using parse_line_fields [of L X ws "T @ '' : '' @ X"] assms by simp
qed

lemma parse_line_two_fields:
  assumes "CHR '':'' \<notin> set L" "str_strip L = L" "X \<noteq> []" "str_strip X = X"
    "\<not> str_in '': '' X" "\<forall>c\<in>set ws. isspace c"
  shows "parse_line (''speaker_'' @ L @ '' : '' @ X @ ws) = Inr (Some (segment L X))"
proof -
  have "str_rfind '': '' X = None"
    using assms(5) by (simp add: str_in_def str_rfind_None_iff)
  then show ?thesis
    using parse_line_fields [of L X ws X] assms by simp
qed

lemma demo_transcript_lines:
  "file_lines demo_transcript =
  [''speaker_3 : 00:00:01.0 - 00:00:02.0 : hello world'' @ [LF], [LF], ''speaker_1 : hi there'' @ [LF]]"
  by (simp add: file_lines_def demo_transcript_def LF_def CR_def)


lemma read_text_to_segments_well_formed:
  assumes "files w file_path = Some content"
    and "\<forall>l\<in>set (file_lines content). str_strip l = [] \<or> str_in '': '' (str_strip l)"
  shows "\<exists>segs. read_text_to_segments w file_path = Inr (JArr segs) \<and>
      length segs = length (filter (\<lambda>l. str_strip l \<noteq> []) (file_lines content)) \<and>
      (\<forall>i<length segs. parse_line (filter (\<lambda>l. str_strip l \<noteq> []) (file_lines content) ! i) =
                          Inr (Some (segs ! i)))"
proof -
  obtain segs where segs: "read_text_lines (file_lines content) [] = Inr segs"
    "length segs = length (filter (\<lambda>l. str_strip l \<noteq> []) (file_lines content))"
    "\<forall>i<length segs. parse_line (filter (\<lambda>l. str_strip l \<noteq> []) (file_lines content) ! i) =
                          Inr (Some (segs ! i))"
    using read_text_lines_well_formed [OF assms(2)] by blast
  have "read_text_to_segments w file_path = Inr (JArr segs)"
    using assms(1) segs(1) by (simp add: read_text_to_segments_def open_read_def)
  with segs(2,3) show ?thesis by blast
qed

lemma demo_transcript_segments:
  "read_text_to_segments demo_world ''call1.txt'' =
     Inr (JArr [JObj [(''speakerId'', JStr ''3''), (''text'', JStr ''hello world'')],
                JObj [(''speakerId'', JStr ''1''), (''text'', JStr ''hi there'')]])"
  by (simp add: read_text_to_segments_def open_read_def demo_world_def demo_transcript_lines
        parse_line_def str_strip_def isspace_def LF_def split1_def rsplit1_def startswith_def
        index_list_def get_speaker_id_def segment_def Let_def)

text \<open>
  C5. When every non-blank line of a text transcript holds the separator \<^verbatim>\<open>": "\<close>,
  \<open>read_text_to_segments\<close> returns as many segments as the file has non-blank lines, the
  i-th segment being what the loop body makes of the i-th non-blank line; a blank line yields
  no segment, wherever it stands. A line \<^verbatim>\<open>speaker_L : timerange : text\<close> yields the
  speaker id \<open>L\<close> and the text after the last separator, and a line \<^verbatim>\<open>speaker_L : text\<close>
  yields \<open>L\<close> and the text. Here \<open>L\<close> holds no colon, \<open>L\<close> and the text have no white
  space around them, the text is not empty and holds no separator (a line has no timerange
  when what follows the first separator holds no further one), and \<open>ws\<close> is the white
  space that ends the line, such as its newline.
\<close>

theorem read_text_to_segments_one_segment_per_line:
  "(files w file_path = Some content \<and>
    (\<forall>l\<in>set (file_lines content). str_strip l = [] \<or> str_in '': '' (str_strip l)) \<longrightarrow>
      (\<exists>segs. read_text_to_segments w file_path = Inr (JArr segs) \<and>
         length segs = length (filter (\<lambda>l. str_strip l \<noteq> []) (file_lines content)) \<and>
         (\<forall>i<length segs.
             parse_line (filter (\<lambda>l. str_strip l \<noteq> []) (file_lines content) ! i) =
               Inr (Some (segs ! i))))) \<and>
   (str_strip l = [] \<longrightarrow>
      parse_line l = Inr None \<and>
      read_text_lines (xs @ l # ys) acc = read_text_lines (xs @ ys) acc) \<and>
   (CHR '':'' \<notin> set L \<and> str_strip L = L \<and> X \<noteq> [] \<and> str_strip X = X \<and>
    \<not> str_in '': '' X \<and> (\<forall>c\<in>set ws. isspace c) \<longrightarrow>
      parse_line (''speaker_'' @ L @ '' : '' @ T @ '' : '' @ X @ ws) =
        Inr (Some (JObj [(''speakerId'', JStr L), (''text'', JStr X)])) \<and>
      parse_line (''speaker_'' @ L @ '' : '' @ X @ ws) =
        Inr (Some (JObj [(''speakerId'', JStr L), (''text'', JStr X)])))"
  using read_text_to_segments_well_formed [of w file_path content]
    read_text_lines_blank [of l xs ys acc] parse_line_blank [of l]
    parse_line_three_fields [of L X ws T] parse_line_two_fields [of L X ws]
  unfolding segment_def by blast

text \<open>
  The examples of the specification, in a file of three lines of which the second is blank.
\<close>

theorem read_text_to_segments_one_segment_per_line_witness:
  "files demo_world ''call1.txt'' = Some demo_transcript \<and>
   file_lines demo_transcript =
     [''speaker_3 : 00:00:01.0 - 00:00:02.0 : hello world'' @ [LF], [LF],
      ''speaker_1 : hi there'' @ [LF]] \<and>
   list_all (\<lambda>l. str_strip l = [] \<or> str_in '': '' (str_strip l)) (file_lines demo_transcript) \<and>
   read_text_to_segments demo_world ''call1.txt'' =
     Inr (JArr [JObj [(''speakerId'', JStr ''3''), (''text'', JStr ''hello world'')],
                JObj [(''speakerId'', JStr ''1''), (''text'', JStr ''hi there'')]]) \<and>
   (\<exists>segs. read_text_to_segments demo_world ''call1.txt'' = Inr (JArr segs) \<and>
      length segs = length (filter (\<lambda>l. str_strip l \<noteq> []) (file_lines demo_transcript))) \<and>
   length (filter (\<lambda>l. str_strip l \<noteq> []) (file_lines demo_transcript)) = 2 \<and>
   str_strip [LF] = [] \<and> parse_line [LF] = Inr None \<and>
   parse_line (''speaker_3 : 00:00:01.0 - 00:00:02.0 : hello world'' @ [LF]) =
     Inr (Some (JObj [(''speakerId'', JStr ''3''), (''text'', JStr ''hello world'')])) \<and>
   parse_line (''speaker_1 : hi there'' @ [LF]) =
     Inr (Some (JObj [(''speakerId'', JStr ''1''), (''text'', JStr ''hi there'')]))"
proof -
  have files: "files demo_world ''call1.txt'' = Some demo_transcript"
    by (simp add: demo_world_def)
  have blank: "str_strip [LF] = []"
    by (simp add: str_strip_def)
  have wf: "\<forall>l\<in>set (file_lines demo_transcript). str_strip l = [] \<or> str_in '': '' (str_strip l)"
    by (simp add: demo_transcript_lines str_strip_def isspace_def LF_def str_in_def startswith_def)
  have lab: "CHR '':'' \<notin> set ''3''" "str_strip ''3'' = ''3''"
    "CHR '':'' \<notin> set ''1''" "str_strip ''1'' = ''1''"
    by (simp_all add: str_strip_def isspace_def)
  have texts: "''hello world'' \<noteq> []" "str_strip ''hello world'' = ''hello world''"
    "\<not> str_in '': '' ''hello world''"
    "''hi there'' \<noteq> []" "str_strip ''hi there'' = ''hi there''" "\<not> str_in '': '' ''hi there''"
    by (simp_all add: str_strip_def isspace_def str_in_def startswith_def)
  have ws: "\<forall>c\<in>set [LF]. isspace c"
    by simp
  note thm1 = read_text_to_segments_one_segment_per_line
      [where w = demo_world and file_path = "''call1.txt''" and content = demo_transcript
         and l = "[LF]" and xs = "[]" and ys = "[]" and acc = "[]"
         and L = "''3''" and X = "''hello world''" and ws = "[LF]"
         and T = "''00:00:01.0 - 00:00:02.0''"]
  note thm2 = read_text_to_segments_one_segment_per_line
      [where w = demo_world and file_path = "''call1.txt''" and content = demo_transcript
         and l = "[LF]" and xs = "[]" and ys = "[]" and acc = "[]"
         and L = "''1''" and X = "''hi there''" and ws = "[LF]" and T = "[]"]
  have p1: "parse_line (''speaker_3 : 00:00:01.0 - 00:00:02.0 : hello world'' @ [LF]) =
     Inr (Some (JObj [(''speakerId'', JStr ''3''), (''text'', JStr ''hello world'')]))"
    using thm1 lab texts ws by simp
  have p2: "parse_line (''speaker_1 : hi there'' @ [LF]) =
     Inr (Some (JObj [(''speakerId'', JStr ''1''), (''text'', JStr ''hi there'')]))"
    using thm2 lab texts ws by simp
  have p0: "parse_line [LF] = Inr None"
    using thm1 blank by simp
  have c1: "\<exists>segs. read_text_to_segments demo_world ''call1.txt'' = Inr (JArr segs) \<and>
      length segs = length (filter (\<lambda>l. str_strip l \<noteq> []) (file_lines demo_transcript))"
    using thm1 files wf by blast
  have c2: "length (filter (\<lambda>l. str_strip l \<noteq> []) (file_lines demo_transcript)) = 2"
    by (simp add: demo_transcript_lines str_strip_def isspace_def LF_def)
  have "list_all (\<lambda>l. str_strip l = [] \<or> str_in '': '' (str_strip l)) (file_lines demo_transcript)"
    using wf by (simp add: list_all_iff)
  then show ?thesis
    using files blank p0 p1 p2 c1 c2 demo_transcript_lines demo_transcript_segments by simp
qed


subsection \<open>The request submitter\<close>

lemma send_request_post_raises:
  "read_segments env w file_path = Inr segments \<Longrightarrow>
   http_post env summary_url (summary_query env) (summary_payload segments model) = Inl ex \<Longrightarrow>
   is_Exception ex \<Longrightarrow>
   send_request env file_path model w =
     (Inr JNull, log (PrintExc ex)
        (log (HttpPost summary_url (summary_query env) (summary_payload segments model)) w))"
  by (simp add: send_request_def send_request_try_def Let_def)

lemma send_request_json_raises:
  "read_segments env w file_path = Inr segments \<Longrightarrow>
   http_post env summary_url (summary_query env) (summary_payload segments model) = Inr (Inl ex) \<Longrightarrow>
   is_Exception ex \<Longrightarrow>
   send_request env file_path model w =
     (Inr JNull, log (PrintExc ex)
        (log (HttpPost summary_url (summary_query env) (summary_payload segments model)) w))"
  by (simp add: send_request_def send_request_try_def Let_def)

lemma send_request_success:
  "read_segments env w file_path = Inr segments \<Longrightarrow>
   http_post env summary_url (summary_query env) (summary_payload segments model) =
     Inr (Inr (JObj kvs)) \<Longrightarrow>
   send_request env file_path model w =
     (Inr (case map_of kvs ''request_id'' of None \<Rightarrow> JNull | Some request_id \<Rightarrow> request_id),
      log (HttpPost summary_url (summary_query env) (summary_payload segments model)) w)"
  by (simp add: send_request_def send_request_try_def Let_def split: option.splits)

lemma send_request_catches:
  "fst (send_request env file_path model w) = Inl ex \<Longrightarrow> \<not> is_Exception ex"
  by (auto simp: send_request_def split: prod.splits sum.splits if_splits)

lemma send_request_read_raises:
  "read_segments env w file_path = Inl ex \<Longrightarrow> is_Exception ex \<Longrightarrow>
   send_request env file_path model w = (Inr JNull, log (PrintExc ex) w)"
  by (simp add: send_request_def send_request_try_def Let_def)

lemma demo_read_segments:
  "read_segments env demo_world ''call1.txt'' =
     Inr (JArr [JObj [(''speakerId'', JStr ''3''), (''text'', JStr ''hello world'')],
                JObj [(''speakerId'', JStr ''1''), (''text'', JStr ''hi there'')]])"
  by (simp add: read_segments_def splitext_def demo_transcript_segments startswith_def)

text \<open>
  C6. Once the transcript is read, a request that raises (a network or HTTP failure of
  \<^verbatim>\<open>requests.post\<close>) or a body that \<^verbatim>\<open>response.json()\<close> cannot decode makes
  \<open>send_request\<close> print the exception and return \<^verbatim>\<open>None\<close>; when the decoded body is an
  object, \<open>send_request\<close> returns its \<open>request_id\<close>, or \<^verbatim>\<open>None\<close> when the object has
  none; and whatever happens, no exception that derives from \<^verbatim>\<open>Exception\<close> leaves
  \<open>send_request\<close>.
\<close>

theorem send_request_returns_None_on_failure:
  "(read_segments env w file_path = Inr segments \<and> is_Exception ex \<and>
    (http_post env summary_url (summary_query env) (summary_payload segments model) = Inl ex \<or>
     http_post env summary_url (summary_query env) (summary_payload segments model) = Inr (Inl ex))
    \<longrightarrow> send_request env file_path model w =
          (Inr JNull, log (PrintExc ex)
             (log (HttpPost summary_url (summary_query env) (summary_payload segments model)) w))) \<and>
   (read_segments env w file_path = Inr segments \<and>
    http_post env summary_url (summary_query env) (summary_payload segments model) =
      Inr (Inr (JObj kvs))
    \<longrightarrow> send_request env file_path model w =
          (Inr (case map_of kvs ''request_id'' of None \<Rightarrow> JNull | Some request_id \<Rightarrow> request_id),
           log (HttpPost summary_url (summary_query env) (summary_payload segments model)) w)) \<and>
   (fst (send_request env file_path model w) = Inl ex \<longrightarrow> \<not> is_Exception ex)"
  using send_request_post_raises [of env w file_path segments model ex]
    send_request_json_raises [of env w file_path segments model ex]
    send_request_success [of env w file_path segments model kvs]
    send_request_catches [of env file_path model w ex]
  by blast


text \<open>
  Runs on the example transcript: the network down, a body that is not JSON, a body with
  and without \<open>request_id\<close>, and an interrupt from the keyboard, which is no \<^verbatim>\<open>Exception\<close>
  and is the one thing that can leave \<open>send_request\<close>.
\<close>

theorem send_request_returns_None_on_failure_witness:
  "(\<exists>segments.
      read_segments offline_env demo_world ''call1.txt'' = Inr segments \<and>
      http_post offline_env summary_url (summary_query offline_env)
        (summary_payload segments (JStr ''iamus'')) = Inl RequestException \<and>
      send_request offline_env ''call1.txt'' (JStr ''iamus'') demo_world =
        (Inr JNull, log (PrintExc RequestException)
           (log (HttpPost summary_url (summary_query offline_env)
                   (summary_payload segments (JStr ''iamus''))) demo_world))) \<and>
   is_Exception RequestException \<and> is_Exception JSONDecodeError \<and>
   send_request ((demo_env (\<lambda>n. errored_reply))\<lparr>http_post := \<lambda>u q p. Inr (Inl JSONDecodeError)\<rparr>)
       ''call1.txt'' (JStr ''iamus'') demo_world =
     (Inr JNull, log (PrintExc JSONDecodeError)
        (log (HttpPost summary_url [(''apikey'', JStr ''KEY'')]
               (summary_payload
                  (JArr [JObj [(''speakerId'', JStr ''3''), (''text'', JStr ''hello world'')],
                         JObj [(''speakerId'', JStr ''1''), (''text'', JStr ''hi there'')]])
                  (JStr ''iamus''))) demo_world)) \<and>
   fst (send_request (demo_env (\<lambda>n. errored_reply)) ''call1.txt'' (JStr ''iamus'') demo_world) =
     Inr (JStr ''r1'') \<and>
   fst (send_request ((demo_env (\<lambda>n. errored_reply))\<lparr>http_post := \<lambda>u q p. Inr (Inr (JObj []))\<rparr>)
          ''call1.txt'' (JStr ''iamus'') demo_world) = Inr JNull \<and>
   fst (send_request ((demo_env (\<lambda>n. errored_reply))\<lparr>http_post := \<lambda>u q p. Inl KeyboardInterrupt\<rparr>)
          ''call1.txt'' (JStr ''iamus'') demo_world) = Inl KeyboardInterrupt \<and>
   \<not> is_Exception KeyboardInterrupt"
proof -
  let ?segs = "JArr [JObj [(''speakerId'', JStr ''3''), (''text'', JStr ''hello world'')],
                     JObj [(''speakerId'', JStr ''1''), (''text'', JStr ''hi there'')]]"
  let ?m = "JStr ''iamus''"
  let ?demo = "demo_env (\<lambda>n. errored_reply)"
  let ?bad_json = "?demo\<lparr>http_post := \<lambda>u q p. Inr (Inl JSONDecodeError)\<rparr>"
  let ?no_id = "?demo\<lparr>http_post := \<lambda>u q p. Inr (Inr (JObj []))\<rparr>"
  let ?interrupted = "?demo\<lparr>http_post := \<lambda>u q p. Inl KeyboardInterrupt\<rparr>"
  have a: "send_request offline_env ''call1.txt'' ?m demo_world =
        (Inr JNull, log (PrintExc RequestException)
           (log (HttpPost summary_url (summary_query offline_env) (summary_payload ?segs ?m))
              demo_world))"
    using send_request_returns_None_on_failure
      [where env = offline_env and w = demo_world and file_path = "''call1.txt''"
         and segments = ?segs and model = ?m and ex = RequestException]
    by (simp add: demo_read_segments offline_env_def demo_env_def)
  have b: "send_request ?bad_json ''call1.txt'' ?m demo_world =
        (Inr JNull, log (PrintExc JSONDecodeError)
           (log (HttpPost summary_url (summary_query ?bad_json) (summary_payload ?segs ?m))
              demo_world))"
    using send_request_returns_None_on_failure
      [where env = ?bad_json and w = demo_world and file_path = "''call1.txt''"
         and segments = ?segs and model = ?m and ex = JSONDecodeError]
    by (simp add: demo_read_segments)
  have c: "fst (send_request ?demo ''call1.txt'' ?m demo_world) = Inr (JStr ''r1'')"
    using send_request_returns_None_on_failure
      [where env = ?demo and w = demo_world and file_path = "''call1.txt''"
         and segments = ?segs and model = ?m and kvs = "[(''request_id'', JStr ''r1'')]"]
    by (simp add: demo_read_segments demo_env_def)
  have d: "fst (send_request ?no_id ''call1.txt'' ?m demo_world) = Inr JNull"
    using send_request_returns_None_on_failure
      [where env = ?no_id and w = demo_world and file_path = "''call1.txt''"
         and segments = ?segs and model = ?m and kvs = "[]"]
    by (simp add: demo_read_segments)
  have e: "fst (send_request ?interrupted ''call1.txt'' ?m demo_world) = Inl KeyboardInterrupt"
    by (simp add: send_request_def send_request_try_def demo_read_segments Let_def)
  have f: "\<not> is_Exception KeyboardInterrupt"
    using send_request_returns_None_on_failure
      [where env = ?interrupted and w = demo_world and file_path = "''call1.txt''"
         and model = ?m and ex = KeyboardInterrupt] e
    by blast
  have q: "summary_query ?bad_json = [(''apikey'', JStr ''KEY'')]"
    by (simp add: summary_query_def demo_env_def)
  have p: "http_post offline_env summary_url (summary_query offline_env) (summary_payload ?segs ?m) =
      Inl RequestException"
    by (simp add: offline_env_def)
  show ?thesis
    using a b c d e f p demo_read_segments [of offline_env] unfolding q by simp
qed


subsection \<open>The polling loop\<close>

lemma files_log [simp]: "files (log e w) = files w"
  and polls_log [simp]: "polls (log e w) = polls w"
  and trace_log [simp]: "trace (log e w) = trace w @ [e]"
  by (simp_all add: log_def)

lemma get_response_in_progress:
  assumes "reply_in_progress (poll_reply env request_id (polls w))"
  shows "get_response env request_id w =
     (Inr (JStr ''IN PROGRESS''), log (Sleep 10) (polled env request_id w))"
proof -
  obtain kvs s where r: "poll_reply env request_id (polls w) = Inr (Inr (JObj kvs))"
    "map_of kvs ''status'' = Some (JStr s)" "str_in ''progress'' (str_strip (str_lower s))"
    using assms
    by (auto simp: reply_in_progress_def elim!: reply_status.elims split: option.splits json.splits)
  show ?thesis
    using r by (simp add: get_response_def get_response_try_def poll_reply_def polled_def Let_def)
qed

lemma get_response_completed:
  assumes "reply_completed (poll_reply env request_id (polls w)) result"
  shows "get_response env request_id w = (Inr result, polled env request_id w)"
proof -
  obtain kvs s kvs' where r: "poll_reply env request_id (polls w) = Inr (Inr (JObj kvs))"
    "map_of kvs ''status'' = Some (JStr s)" "\<not> str_in ''progress'' (str_strip (str_lower s))"
    "str_in ''completed'' (str_strip (str_lower s))"
    "map_of kvs ''response'' = Some (JObj kvs')" "map_of kvs' ''response'' = Some result"
    using assms
    by (auto simp: reply_completed_def elim!: reply_status.elims reply_result.elims
             split: option.splits json.splits)
  show ?thesis
    using r by (simp add: get_response_def get_response_try_def poll_reply_def polled_def Let_def)
qed

lemma get_response_unrecognized:
  assumes "reply_unrecognized (poll_reply env request_id (polls w))"
  shows "\<exists>status. reply_status (poll_reply env request_id (polls w)) = Some status \<and>
     get_response env request_id w =
       (Inr (JStr ''FAILED''),
        log (PrintFormat ''request_id: {} status: {}'' [request_id, JStr status])
          (polled env request_id w))"
proof -
  obtain kvs s where r: "poll_reply env request_id (polls w) = Inr (Inr (JObj kvs))"
    "map_of kvs ''status'' = Some (JStr s)" "\<not> str_in ''progress'' (str_strip (str_lower s))"
    "\<not> str_in ''completed'' (str_strip (str_lower s))"
    using assms
    by (auto simp: reply_unrecognized_def elim!: reply_status.elims split: option.splits json.splits)
  show ?thesis
    using r by (simp add: get_response_def get_response_try_def poll_reply_def polled_def Let_def)
qed


lemma poll_loop_in_progress:
  "reply_in_progress (poll_reply env request_id (polls w)) \<Longrightarrow>
   poll_loop env file_name out_folder request_id w =
     poll_loop env file_name out_folder request_id (in_progress_step env request_id w)"
  by (subst poll_loop.simps) (simp add: get_response_in_progress in_progress_step_def)

lemma poll_loop_completed:
  assumes "reply_completed (poll_reply env request_id (polls w)) result"
    and "can_write env (out_filename out_folder file_name)"
  shows "poll_loop env file_name out_folder request_id w =
     Some (Inr (),
       log (Print (''Output written to '' @ out_filename out_folder file_name))
         (log (Print (''Completed summary for  file :: '' @ file_name))
            (log (FileWrite (out_filename out_folder file_name)
                    (json_dumps env (JObj [(''response'', result)])))
               ((polled env request_id w)
                  \<lparr>files := (files w)(out_filename out_folder file_name \<mapsto>
                               json_dumps env (JObj [(''response'', result)]))\<rparr>))))"
proof -
  have dict: "isinstance_dict result"
    using assms(1) by (simp add: reply_completed_def split: option.splits)
  have files: "files (polled env request_id w) = files w"
    by (simp add: polled_def)
  show ?thesis
    by (subst poll_loop.simps)
       (simp add: get_response_completed [OF assms(1)] write_file_def dict assms(2) files)
qed

lemma poll_loop_unrecognized:
  assumes "reply_unrecognized (poll_reply env request_id (polls w))"
  shows "\<exists>status. poll_loop env file_name out_folder request_id w =
     Some (Inr (), log (PrintFormat ''request_id: {} status: {}'' [request_id, JStr status])
                     (polled env request_id w))"
proof -
  obtain status where "get_response env request_id w =
       (Inr (JStr ''FAILED''),
        log (PrintFormat ''request_id: {} status: {}'' [request_id, JStr status])
          (polled env request_id w))"
    using get_response_unrecognized [OF assms] by blast
  then show ?thesis
    by (subst poll_loop.simps) auto
qed

lemma concat_replicate_snoc: "concat (replicate n xs) @ xs = xs @ concat (replicate n xs)"
  by (induction n) simp_all

lemma in_progress_steps:
  "polls ((in_progress_step env request_id ^^ n) w) = polls w + n"
  "files ((in_progress_step env request_id ^^ n) w) = files w"
  "trace ((in_progress_step env request_id ^^ n) w) =
     trace w @ concat (replicate n [HttpGet status_url (status_query env request_id), Sleep 10,
                                    Print ''Summarization is in progress''])"
  by (induction n)
     (simp_all add: in_progress_step_def polled_def
        concat_replicate_snoc [of _ "[HttpGet status_url (status_query env request_id), Sleep 10,
                                      Print ''Summarization is in progress'']", simplified])

lemma poll_loop_in_progress_steps:
  "\<forall>k<n. reply_in_progress (poll_reply env request_id (polls w + k)) \<Longrightarrow>
   poll_loop env file_name out_folder request_id w =
     poll_loop env file_name out_folder request_id ((in_progress_step env request_id ^^ n) w)"
proof (induction n)
  case 0
  then show ?case by simp
next
  case (Suc n)
  then have "poll_loop env file_name out_folder request_id w =
     poll_loop env file_name out_folder request_id ((in_progress_step env request_id ^^ n) w)"
    by simp
  moreover have "reply_in_progress
      (poll_reply env request_id (polls ((in_progress_step env request_id ^^ n) w)))"
    using Suc.prems by (simp add: in_progress_steps)
  ultimately show ?case
    using poll_loop_in_progress
      [of env request_id "(in_progress_step env request_id ^^ n) w" file_name out_folder]
    by simp
qed

lemma poll_loop_never_returns:
  assumes "poll_loop env file_name out_folder request_id w = Some y"
  shows "\<exists>k. \<not> reply_in_progress (poll_reply env request_id (polls w + k))"
proof (rule poll_loop.raw_induct
    [where P = "\<lambda>env file_name out_folder request_id w y.
                  \<exists>k. \<not> reply_in_progress (poll_reply env request_id (polls w + k))",
     OF _ assms], goal_cases)
  case (1 loop env file_name out_folder request_id w y)
  show ?case
  proof (cases "reply_in_progress (poll_reply env request_id (polls w))")
    case False
    then show ?thesis
      by (intro exI [of _ 0]) simp
  next
    case True
    then have "loop env file_name out_folder request_id (in_progress_step env request_id w) = Some y"
      using "1"(2) by (simp add: get_response_in_progress in_progress_step_def)
    then obtain k where
      "\<not> reply_in_progress
          (poll_reply env request_id (polls (in_progress_step env request_id w) + k))"
      using "1"(1) by blast
    then have "\<not> reply_in_progress (poll_reply env request_id (polls w + Suc k))"
      by (simp add: in_progress_step_def polled_def)
    then show ?thesis by blast
  qed
qed


lemma str_rfind_slash_None: "str_rfind ''/'' s = None \<Longrightarrow> CHR ''/'' \<notin> set s"
  by (induction s) (auto simp: startswith_def split: option.splits if_splits)

lemma str_rfind_slash_Some: "str_rfind ''/'' s = Some i \<Longrightarrow> CHR ''/'' \<notin> set (drop (Suc i) s)"
proof (induction s arbitrary: i)
  case Nil
  then show ?case by simp
next
  case (Cons c cs)
  show ?case
  proof (cases "str_rfind ''/'' cs")
    case None
    then show ?thesis
      using Cons.prems str_rfind_slash_None [OF None] by (auto split: if_splits)
  next
    case (Some j)
    then show ?thesis
      using Cons.prems Cons.IH [OF Some] by auto
  qed
qed

lemma basename_no_slash: "CHR ''/'' \<notin> set (basename p)"
  using str_rfind_slash_None [of p] str_rfind_slash_Some [of p]
  by (auto simp: basename_def split: option.splits)

lemma out_filename_shape:
  assumes "out_folder \<noteq> []" and "\<not> endswith out_folder ''/''"
  shows "out_filename out_folder file_name = out_folder @ ''/'' @ basename file_name @ ''.output.json''"
proof -
  have "hd (basename file_name @ ''.output.json'') \<noteq> CHR ''/''"
    using basename_no_slash [of file_name] by (cases "basename file_name") auto
  then have "\<not> startswith (basename file_name @ ''.output.json'') ''/''"
    by (cases "basename file_name @ ''.output.json''") (auto simp: startswith_def)
  then show ?thesis
    using assms by (simp add: out_filename_def path_join_def)
qed

lemma poll_loop_run_completed:
  assumes "\<forall>k<n. reply_in_progress (poll_reply env request_id (polls w + k))"
    and "reply_completed (poll_reply env request_id (polls w + n)) result"
    and "can_write env (out_filename out_folder file_name)"
  shows "\<exists>w'. poll_loop env file_name out_folder request_id w = Some (Inr (), w') \<and>
     files w' = (files w)(out_filename out_folder file_name \<mapsto>
                   json_dumps env (JObj [(''response'', result)])) \<and>
     polls w' = polls w + n + 1 \<and>
     trace w' = trace w @
       concat (replicate n [HttpGet status_url (status_query env request_id), Sleep 10,
                            Print ''Summarization is in progress'']) @
       [HttpGet status_url (status_query env request_id),
        FileWrite (out_filename out_folder file_name) (json_dumps env (JObj [(''response'', result)])),
        Print (''Completed summary for  file :: '' @ file_name),
        Print (''Output written to '' @ out_filename out_folder file_name)]"
proof -
  let ?wn = "(in_progress_step env request_id ^^ n) w"
  have 1: "poll_loop env file_name out_folder request_id w =
           poll_loop env file_name out_folder request_id ?wn"
    using assms(1) by (rule poll_loop_in_progress_steps)
  have 2: "reply_completed (poll_reply env request_id (polls ?wn)) result"
    using assms(2) by (simp add: in_progress_steps)
  show ?thesis
    unfolding 1 poll_loop_completed [OF 2 assms(3)]
    by (simp add: in_progress_steps polled_def)
qed

lemma poll_loop_run_unrecognized:
  assumes "\<forall>k<n. reply_in_progress (poll_reply env request_id (polls w + k))"
    and "reply_unrecognized (poll_reply env request_id (polls w + n))"
  shows "\<exists>w' status. poll_loop env file_name out_folder request_id w = Some (Inr (), w') \<and>
     files w' = files w \<and> polls w' = polls w + n + 1 \<and>
     trace w' = trace w @
       concat (replicate n [HttpGet status_url (status_query env request_id), Sleep 10,
                            Print ''Summarization is in progress'']) @
       [HttpGet status_url (status_query env request_id),
        PrintFormat ''request_id: {} status: {}'' [request_id, JStr status]]"
proof -
  let ?wn = "(in_progress_step env request_id ^^ n) w"
  have 1: "poll_loop env file_name out_folder request_id w =
           poll_loop env file_name out_folder request_id ?wn"
    using assms(1) by (rule poll_loop_in_progress_steps)
  have 2: "reply_unrecognized (poll_reply env request_id (polls ?wn))"
    using assms(2) by (simp add: in_progress_steps)
  obtain status where "poll_loop env file_name out_folder request_id ?wn =
     Some (Inr (), log (PrintFormat ''request_id: {} status: {}'' [request_id, JStr status])
                     (polled env request_id ?wn))"
    using poll_loop_unrecognized [OF 2] by blast
  then show ?thesis
    unfolding 1 by (simp add: in_progress_steps polled_def)
qed

lemma count_in_progress_events:
  "filter is_write (concat (replicate n [HttpGet u q, Sleep 10, Print s])) = []"
  "takeWhile (\<lambda>e. \<not> is_write e) (concat (replicate n [HttpGet u q, Sleep 10, Print s]) @ es) =
     concat (replicate n [HttpGet u q, Sleep 10, Print s]) @ takeWhile (\<lambda>e. \<not> is_write e) es"
  "length (filter is_poll (concat (replicate n [HttpGet u q, Sleep 10, Print s]))) = n"
  by (induction n) simp_all


lemma demo_replies:
  "reply_in_progress in_progress_reply"
  "reply_completed completed_reply demo_summary"
  "reply_unrecognized errored_reply"
  by code_simp+

lemma demo_poll_reply [simp]: "poll_reply (demo_env replies) request_id n = replies n"
  by (simp add: poll_reply_def demo_env_def)

lemma demo_out_filename:
  "out_filename ''/tmp/out'' ''call1.txt'' = ''/tmp/out/call1.txt.output.json''"
  by (simp add: out_filename_def path_join_def basename_def startswith_def endswith_def)

text \<open>
  C7. When the first \<open>n\<close> answers of the status endpoint are in progress and the next one
  is completed with a result object, the loop returns after \<open>n + 1\<close> status requests; it
  writes one file and no more, and the write comes after the last of these requests, that
  is once the completed answer has been read. (The file can be opened for writing.) When
  the answer after the \<open>n\<close> in progress has a status that holds neither \<open>progress\<close> nor
  \<open>completed\<close>, such as \<open>errored\<close>, the loop returns with no file written and the files as
  they were.
\<close>

theorem poll_loop_writes_once:
  "((\<forall>k<n. reply_in_progress (poll_reply env request_id (polls w + k))) \<and>
    reply_completed (poll_reply env request_id (polls w + n)) result \<and>
    can_write env (out_filename out_folder file_name) \<longrightarrow>
      (\<exists>w'. poll_loop env file_name out_folder request_id w = Some (Inr (), w') \<and>
         polls w' = polls w + n + 1 \<and>
         trace w' = trace w @
           concat (replicate n [HttpGet status_url (status_query env request_id), Sleep 10,
                                Print ''Summarization is in progress'']) @
           [HttpGet status_url (status_query env request_id),
            FileWrite (out_filename out_folder file_name)
              (json_dumps env (JObj [(''response'', result)])),
            Print (''Completed summary for  file :: '' @ file_name),
            Print (''Output written to '' @ out_filename out_folder file_name)] \<and>
         length (filter is_write (drop (length (trace w)) (trace w'))) = 1 \<and>
         length (filter is_poll
                   (takeWhile (\<lambda>e. \<not> is_write e) (drop (length (trace w)) (trace w')))) = n + 1)) \<and>
   ((\<forall>k<n. reply_in_progress (poll_reply env request_id (polls w + k))) \<and>
    reply_unrecognized (poll_reply env request_id (polls w + n)) \<longrightarrow>
      (\<exists>w'. poll_loop env file_name out_folder request_id w = Some (Inr (), w') \<and>
         polls w' = polls w + n + 1 \<and> files w' = files w \<and>
         filter is_write (drop (length (trace w)) (trace w')) = []))"
proof (intro conjI impI)
  assume "(\<forall>k<n. reply_in_progress (poll_reply env request_id (polls w + k))) \<and>
    reply_completed (poll_reply env request_id (polls w + n)) result \<and>
    can_write env (out_filename out_folder file_name)"
  then obtain w' where w': "poll_loop env file_name out_folder request_id w = Some (Inr (), w')"
    "polls w' = polls w + n + 1"
    "trace w' = trace w @
       concat (replicate n [HttpGet status_url (status_query env request_id), Sleep 10,
                            Print ''Summarization is in progress'']) @
       [HttpGet status_url (status_query env request_id),
        FileWrite (out_filename out_folder file_name) (json_dumps env (JObj [(''response'', result)])),
        Print (''Completed summary for  file :: '' @ file_name),
        Print (''Output written to '' @ out_filename out_folder file_name)]"
    using poll_loop_run_completed [of n env request_id w result out_folder file_name] by blast
  have "length (filter is_write (drop (length (trace w)) (trace w'))) = 1"
    by (simp add: w'(3) count_in_progress_events)
  moreover have "length (filter is_poll
      (takeWhile (\<lambda>e. \<not> is_write e) (drop (length (trace w)) (trace w')))) = n + 1"
    by (simp add: w'(3) count_in_progress_events)
  ultimately show "\<exists>w'. poll_loop env file_name out_folder request_id w = Some (Inr (), w') \<and>
         polls w' = polls w + n + 1 \<and>
         trace w' = trace w @
           concat (replicate n [HttpGet status_url (status_query env request_id), Sleep 10,
                                Print ''Summarization is in progress'']) @
           [HttpGet status_url (status_query env request_id),
            FileWrite (out_filename out_folder file_name)
              (json_dumps env (JObj [(''response'', result)])),
            Print (''Completed summary for  file :: '' @ file_name),
            Print (''Output written to '' @ out_filename out_folder file_name)] \<and>
         length (filter is_write (drop (length (trace w)) (trace w'))) = 1 \<and>
         length (filter is_poll
                   (takeWhile (\<lambda>e. \<not> is_write e) (drop (length (trace w)) (trace w')))) = n + 1"
    using w' by blast
next
  assume "(\<forall>k<n. reply_in_progress (poll_reply env request_id (polls w + k))) \<and>
    reply_unrecognized (poll_reply env request_id (polls w + n))"
  then obtain w' status where w': "poll_loop env file_name out_folder request_id w = Some (Inr (), w')"
    "files w' = files w" "polls w' = polls w + n + 1"
    "trace w' = trace w @
       concat (replicate n [HttpGet status_url (status_query env request_id), Sleep 10,
                            Print ''Summarization is in progress'']) @
       [HttpGet status_url (status_query env request_id),
        PrintFormat ''request_id: {} status: {}'' [request_id, JStr status]]"
    using poll_loop_run_unrecognized [of n env request_id w file_name out_folder] by blast
  have "filter is_write (drop (length (trace w)) (trace w')) = []"
    by (simp add: w'(4) count_in_progress_events)
  then show "\<exists>w'. poll_loop env file_name out_folder request_id w = Some (Inr (), w') \<and>
         polls w' = polls w + n + 1 \<and> files w' = files w \<and>
         filter is_write (drop (length (trace w)) (trace w')) = []"
    using w' by blast
qed


text \<open>
  The example of the specification: the answers in progress, in progress, completed; and
  one answer \<open>errored\<close>.
\<close>

theorem poll_loop_writes_once_witness:
  "reply_in_progress
     (poll_reply (demo_env (\<lambda>n. if n < 2 then in_progress_reply else completed_reply))
        (JStr ''r1'') 0) \<and>
   reply_in_progress
     (poll_reply (demo_env (\<lambda>n. if n < 2 then in_progress_reply else completed_reply))
        (JStr ''r1'') 1) \<and>
   reply_completed
     (poll_reply (demo_env (\<lambda>n. if n < 2 then in_progress_reply else completed_reply))
        (JStr ''r1'') 2) demo_summary \<and>
   (\<exists>w'. poll_loop (demo_env (\<lambda>n. if n < 2 then in_progress_reply else completed_reply))
           ''call1.txt'' ''/tmp/out'' (JStr ''r1'') demo_world = Some (Inr (), w') \<and>
      polls w' = 3 \<and>
      trace w' =
        [HttpGet status_url [(''apikey'', JStr ''KEY''), (''request_id'', JStr ''r1'')],
         Sleep 10, Print ''Summarization is in progress'',
         HttpGet status_url [(''apikey'', JStr ''KEY''), (''request_id'', JStr ''r1'')],
         Sleep 10, Print ''Summarization is in progress'',
         HttpGet status_url [(''apikey'', JStr ''KEY''), (''request_id'', JStr ''r1'')],
         FileWrite ''/tmp/out/call1.txt.output.json''
           (''{'' @ quoted ''response'' @ '': {'' @ quoted ''summary'' @ '': '' @ quoted ''ok'' @ ''}}''),
         Print ''Completed summary for  file :: call1.txt'',
         Print ''Output written to /tmp/out/call1.txt.output.json''] \<and>
      length (filter is_write (trace w')) = 1) \<and>
   reply_unrecognized (poll_reply (demo_env (\<lambda>n. errored_reply)) (JStr ''r1'') 0) \<and>
   (\<exists>w'. poll_loop (demo_env (\<lambda>n. errored_reply)) ''call1.txt'' ''/tmp/out'' (JStr ''r1'')
           demo_world = Some (Inr (), w') \<and>
      polls w' = 1 \<and> files w' = files demo_world \<and> filter is_write (trace w') = [])"
proof -
  let ?env = "demo_env (\<lambda>n. if n < 2 then in_progress_reply else completed_reply)"
  have w0: "polls demo_world = 0" "trace demo_world = []"
    by (simp_all add: demo_world_def)
  have env: "status_query ?env (JStr ''r1'') = [(''apikey'', JStr ''KEY''), (''request_id'', JStr ''r1'')]"
    "json_dumps ?env (JObj [(''response'', demo_summary)]) =
       ''{'' @ quoted ''response'' @ '': {'' @ quoted ''summary'' @ '': '' @ quoted ''ok'' @ ''}}''"
    "can_write ?env (out_filename ''/tmp/out'' ''call1.txt'')"
    by (simp_all add: status_query_def demo_env_def)
  have two: "replicate 2 x = [x, x]" for x :: "event list"
    by (simp add: numeral_2_eq_2)
  have a: "\<exists>w'. poll_loop ?env ''call1.txt'' ''/tmp/out'' (JStr ''r1'') demo_world = Some (Inr (), w') \<and>
      polls w' = 3 \<and>
      trace w' =
        [HttpGet status_url [(''apikey'', JStr ''KEY''), (''request_id'', JStr ''r1'')],
         Sleep 10, Print ''Summarization is in progress'',
         HttpGet status_url [(''apikey'', JStr ''KEY''), (''request_id'', JStr ''r1'')],
         Sleep 10, Print ''Summarization is in progress'',
         HttpGet status_url [(''apikey'', JStr ''KEY''), (''request_id'', JStr ''r1'')],
         FileWrite ''/tmp/out/call1.txt.output.json''
           (''{'' @ quoted ''response'' @ '': {'' @ quoted ''summary'' @ '': '' @ quoted ''ok'' @ ''}}''),
         Print ''Completed summary for  file :: call1.txt'',
         Print ''Output written to /tmp/out/call1.txt.output.json''] \<and>
      length (filter is_write (trace w')) = 1"
    using poll_loop_writes_once
      [where env = ?env and request_id = "JStr ''r1''" and w = demo_world and n = 2
         and result = demo_summary and out_folder = "''/tmp/out''" and file_name = "''call1.txt''"]
      demo_replies env(3)
    unfolding env(1,2) demo_out_filename
    by (auto simp: w0 two numeral_3_eq_3)
  have b: "\<exists>w'. poll_loop (demo_env (\<lambda>n. errored_reply)) ''call1.txt'' ''/tmp/out'' (JStr ''r1'')
           demo_world = Some (Inr (), w') \<and>
      polls w' = 1 \<and> files w' = files demo_world \<and> filter is_write (trace w') = []"
    using poll_loop_writes_once
      [where env = "demo_env (\<lambda>n. errored_reply)" and request_id = "JStr ''r1''"
         and w = demo_world and n = 0 and out_folder = "''/tmp/out''"
         and file_name = "''call1.txt''"]
      demo_replies
    by (auto simp: w0)
  show ?thesis
    using a b demo_replies by simp
qed


text \<open>
  C9. The loop counts nothing and watches no clock: when every answer of the status endpoint
  is in progress, the loop never returns, and for every \<open>n\<close> it comes to make its \<open>n\<close>-th
  status request and goes on from there.
\<close>

theorem poll_loop_polls_forever:
  "(\<forall>k. reply_in_progress (poll_reply env request_id (polls w + k))) \<longrightarrow>
     poll_loop env file_name out_folder request_id w = None \<and>
     (\<forall>n. poll_loop env file_name out_folder request_id w =
            poll_loop env file_name out_folder request_id
              ((in_progress_step env request_id ^^ n) w) \<and>
          polls ((in_progress_step env request_id ^^ n) w) = polls w + n)"
proof
  assume all: "\<forall>k. reply_in_progress (poll_reply env request_id (polls w + k))"
  have "poll_loop env file_name out_folder request_id w = None"
  proof (cases "poll_loop env file_name out_folder request_id w")
    case None
    then show ?thesis .
  next
    case (Some y)
    then show ?thesis
      using poll_loop_never_returns [OF Some] all by blast
  qed
  moreover have "poll_loop env file_name out_folder request_id w =
            poll_loop env file_name out_folder request_id
              ((in_progress_step env request_id ^^ n) w)" for n
    using all by (intro poll_loop_in_progress_steps) simp
  ultimately show "poll_loop env file_name out_folder request_id w = None \<and>
     (\<forall>n. poll_loop env file_name out_folder request_id w =
            poll_loop env file_name out_folder request_id
              ((in_progress_step env request_id ^^ n) w) \<and>
          polls ((in_progress_step env request_id ^^ n) w) = polls w + n)"
    by (simp add: in_progress_steps)
qed

lemma read_segments_files:
  "files w = files w' \<Longrightarrow> read_segments env w file_path = read_segments env w' file_path"
  by (simp add: read_segments_def read_json_to_segments_def read_text_to_segments_def open_read_def)

text \<open>A provider that never finishes: the loop, and with it the whole request, never returns.\<close>

theorem poll_loop_polls_forever_witness:
  "(\<forall>k. reply_in_progress
          (poll_reply (demo_env (\<lambda>n. in_progress_reply)) (JStr ''r1'') (polls demo_world + k))) \<and>
   poll_loop (demo_env (\<lambda>n. in_progress_reply)) ''call1.txt'' ''/tmp/out'' (JStr ''r1'') demo_world =
     None \<and>
   process_summary_request (demo_env (\<lambda>n. in_progress_reply)) ''call1.txt'' ''/tmp/out''
     (JStr ''iamus'') demo_world = None"
proof -
  let ?env = "demo_env (\<lambda>n. in_progress_reply)"
  let ?w0 = "log (Print (''Processing file : '' @ ''call1.txt'')) demo_world"
  have all: "\<forall>k. reply_in_progress (poll_reply ?env (JStr ''r1'') (polls w + k))" for w
    by (simp add: demo_replies)
  have a: "poll_loop ?env ''call1.txt'' ''/tmp/out'' (JStr ''r1'') w = None" for w
    using poll_loop_polls_forever
      [where env = ?env and request_id = "JStr ''r1''" and w = w and file_name = "''call1.txt''"
         and out_folder = "''/tmp/out''"] all
    by blast
  have "read_segments ?env ?w0 ''call1.txt'' = read_segments ?env demo_world ''call1.txt''"
    by (rule read_segments_files) simp
  then have "\<exists>w1. send_request ?env ''call1.txt'' (JStr ''iamus'') ?w0 = (Inr (JStr ''r1''), w1)"
    by (simp add: send_request_def send_request_try_def demo_read_segments Let_def demo_env_def)
  then have "process_summary_request ?env ''call1.txt'' ''/tmp/out'' (JStr ''iamus'') demo_world = None"
    using a by (auto simp: process_summary_request_def)
  then show ?thesis
    using a [of demo_world] all [of demo_world] by simp
qed


text \<open>
  C8. When the loop ends on a completed answer with the result object \<open>result\<close>, the files
  afterwards are the files before with the output path set to the JSON text of
  \<^verbatim>\<open>{"response": result}\<close>: whatever the path held before is replaced, and no other file
  changes. The path is the output folder, a slash, the base name of the input file and
  \<^verbatim>\<open>.output.json\<close> (for a folder that is not empty and does not end in a slash).
\<close>

theorem poll_loop_output_file:
  "((\<forall>k<n. reply_in_progress (poll_reply env request_id (polls w + k))) \<and>
    reply_completed (poll_reply env request_id (polls w + n)) result \<and>
    can_write env (out_filename out_folder file_name) \<longrightarrow>
      (\<exists>w'. poll_loop env file_name out_folder request_id w = Some (Inr (), w') \<and>
         polls w' = polls w + n + 1 \<and>
         files w' = (files w)(out_filename out_folder file_name \<mapsto>
                        json_dumps env (JObj [(''response'', result)])))) \<and>
   (out_folder \<noteq> [] \<and> \<not> endswith out_folder ''/'' \<longrightarrow>
      out_filename out_folder file_name =
        out_folder @ ''/'' @ basename file_name @ ''.output.json'')"
  using poll_loop_run_completed [of n env request_id w result out_folder file_name]
    out_filename_shape [of out_folder file_name]
  by blast

text \<open>
  Two runs in a row for \<^verbatim>\<open>call1.txt\<close> and the folder \<^verbatim>\<open>/tmp/out\<close>, with a provider that
  completes every third answer: the second run finds the file of the first and leaves the
  same files behind.
\<close>

theorem poll_loop_output_file_witness:
  "out_filename ''/tmp/out'' ''call1.txt'' = ''/tmp/out/call1.txt.output.json'' \<and>
   ''/tmp/out'' \<noteq> [] \<and> \<not> endswith ''/tmp/out'' ''/'' \<and>
   (\<exists>w1 w2.
      poll_loop (demo_env (\<lambda>n. if n mod 3 = 2 then completed_reply else in_progress_reply))
        ''call1.txt'' ''/tmp/out'' (JStr ''r1'') demo_world = Some (Inr (), w1) \<and>
      poll_loop (demo_env (\<lambda>n. if n mod 3 = 2 then completed_reply else in_progress_reply))
        ''call1.txt'' ''/tmp/out'' (JStr ''r1'') w1 = Some (Inr (), w2) \<and>
      files demo_world ''/tmp/out/call1.txt.output.json'' = None \<and>
      files w1 ''/tmp/out/call1.txt.output.json'' =
        Some (''{'' @ quoted ''response'' @ '': {'' @ quoted ''summary'' @ '': '' @ quoted ''ok'' @ ''}}'') \<and>
      files w2 = files w1 \<and> files w1 ''call1.txt'' = files demo_world ''call1.txt'')"
proof -
  let ?env = "demo_env (\<lambda>n. if n mod 3 = 2 then completed_reply else in_progress_reply)"
  let ?text = "''{'' @ quoted ''response'' @ '': {'' @ quoted ''summary'' @ '': '' @ quoted ''ok'' @ ''}}''"
  have env: "json_dumps ?env (JObj [(''response'', demo_summary)]) = ?text"
    "can_write ?env (out_filename ''/tmp/out'' ''call1.txt'')"
    by (simp_all add: demo_env_def)
  have w0: "polls demo_world = 0" "files demo_world ''/tmp/out/call1.txt.output.json'' = None"
    by (simp_all add: demo_world_def)
  have shape: "out_filename ''/tmp/out'' ''call1.txt'' = ''/tmp/out'' @ ''/'' @ basename ''call1.txt'' @ ''.output.json''"
    using poll_loop_output_file [where out_folder = "''/tmp/out''" and file_name = "''call1.txt''"]
    by (simp add: endswith_def)
  have mods: "k < 2 \<Longrightarrow> k mod 3 \<noteq> 2" "k < 2 \<Longrightarrow> (3 + k) mod 3 \<noteq> 2" for k :: nat
    by presburger+
  have first: "\<forall>k<2. reply_in_progress (poll_reply ?env (JStr ''r1'') (0 + k))"
    "reply_completed (poll_reply ?env (JStr ''r1'') (0 + 2)) demo_summary"
    by (simp_all add: demo_replies mods)
  have second: "\<forall>k<2. reply_in_progress (poll_reply ?env (JStr ''r1'') (3 + k))"
    "reply_completed (poll_reply ?env (JStr ''r1'') (3 + 2)) demo_summary"
    by (simp_all add: demo_replies mods)
  obtain w1 where w1:
    "poll_loop ?env ''call1.txt'' ''/tmp/out'' (JStr ''r1'') demo_world = Some (Inr (), w1)"
    "polls w1 = 3"
    "files w1 = (files demo_world)(out_filename ''/tmp/out'' ''call1.txt'' \<mapsto> ?text)"
    using poll_loop_output_file
      [where env = ?env and request_id = "JStr ''r1''" and w = demo_world and n = 2
         and result = demo_summary and out_folder = "''/tmp/out''" and file_name = "''call1.txt''"]
      first env
    by (auto simp: w0)
  obtain w2 where w2:
    "poll_loop ?env ''call1.txt'' ''/tmp/out'' (JStr ''r1'') w1 = Some (Inr (), w2)"
    "files w2 = (files w1)(out_filename ''/tmp/out'' ''call1.txt'' \<mapsto> ?text)"
    using poll_loop_output_file
      [where env = ?env and request_id = "JStr ''r1''" and w = w1 and n = 2
         and result = demo_summary and out_folder = "''/tmp/out''" and file_name = "''call1.txt''"]
      second env
    by (auto simp: w1(2))
  have "files w2 = files w1"
    by (simp add: w2(2) w1(3))
  moreover have "files w1 ''/tmp/out/call1.txt.output.json'' = Some ?text"
    "files w1 ''call1.txt'' = files demo_world ''call1.txt''"
    by (simp_all add: w1(3) demo_out_filename)
  ultimately show ?thesis
    using w1(1) w2(1) w0(2) demo_out_filename by (auto simp: endswith_def)
qed


subsection \<open>A transcript line without separator\<close>

lemma splitext_suffix:
  "snd (splitext p) = [] \<or> (\<exists>d. snd (splitext p) = drop d p)"
  by (auto simp: splitext_def Let_def split: option.splits)

lemma last_drop: "drop d p = s \<Longrightarrow> s \<noteq> [] \<Longrightarrow> last p = last s"
  by (metis append_take_drop_id last_appendR)

lemma splitext_txt:
  assumes "endswith p ''.txt''"
  shows "snd (splitext p) \<noteq> ''.json''"
proof
  assume json: "snd (splitext p) = ''.json''"
  then obtain d where d: "drop d p = ''.json''"
    using splitext_suffix [of p] by auto
  have n: "last p = CHR ''n''"
    using last_drop [OF d] by simp
  have "drop (length p - length ''.txt'') p = ''.txt''"
    using assms unfolding endswith_def by (rule conjunct2)
  then have "last p = last ''.txt''"
    by (rule last_drop) simp
  then have "last p = CHR ''t''"
    by simp
  with n show False by simp
qed

lemma read_text_to_segments_malformed:
  "files w file_path = Some content \<Longrightarrow> l \<in> set (file_lines content) \<Longrightarrow>
   str_strip l \<noteq> [] \<Longrightarrow> \<not> str_in '': '' (str_strip l) \<Longrightarrow>
   read_text_to_segments w file_path = Inl IndexError"
  using read_text_lines_malformed [of l "file_lines content" "[]"]
  by (simp add: read_text_to_segments_def open_read_def)

lemma send_request_malformed:
  assumes "files w file_path = Some content" and "l \<in> set (file_lines content)"
    and "str_strip l \<noteq> []" and "\<not> str_in '': '' (str_strip l)" and "endswith file_path ''.txt''"
  shows "send_request env file_path model w = (Inr JNull, log (PrintExc IndexError) w)"
proof -
  have "read_segments env w file_path = Inl IndexError"
    using read_text_to_segments_malformed [OF assms(1-4)] splitext_txt [OF assms(5)]
    by (simp add: read_segments_def)
  then show ?thesis
    by (rule send_request_read_raises) simp
qed

lemma process_summary_request_malformed:
  assumes "files w file_path = Some content" and "l \<in> set (file_lines content)"
    and "str_strip l \<noteq> []" and "\<not> str_in '': '' (str_strip l)" and "endswith file_path ''.txt''"
  shows "process_summary_request env file_path out_folder model w =
     poll_loop env file_path out_folder JNull
       (log (PrintExc IndexError) (log (Print (''Processing file : '' @ file_path)) w))"
proof -
  have "files (log (Print (''Processing file : '' @ file_path)) w) file_path = Some content"
    using assms(1) by simp
  then show ?thesis
    using send_request_malformed [OF _ assms(2-5)]
    by (simp add: process_summary_request_def)
qed

lemma poll_loop_unrecognized_status:
  assumes "reply_status (poll_reply env request_id (polls w)) = Some status"
    and "\<not> str_in ''progress'' status" and "\<not> str_in ''completed'' status"
  shows "poll_loop env file_name out_folder request_id w =
     Some (Inr (), log (PrintFormat ''request_id: {} status: {}'' [request_id, JStr status])
                     (polled env request_id w))"
proof -
  have "reply_unrecognized (poll_reply env request_id (polls w))"
    using assms by (simp add: reply_unrecognized_def)
  then have "get_response env request_id w =
       (Inr (JStr ''FAILED''),
        log (PrintFormat ''request_id: {} status: {}'' [request_id, JStr status])
          (polled env request_id w))"
    using get_response_unrecognized [of env request_id w] assms(1) by auto
  then show ?thesis
    by (subst poll_loop.simps) simp
qed

lemma demo_bad_facts:
  "files demo_world ''bad.txt'' = Some demo_bad_transcript"
  "demo_bad_line \<in> set (file_lines demo_bad_transcript)"
  "str_strip demo_bad_line \<noteq> []"
  "\<not> str_in '': '' (str_strip demo_bad_line)"
  "endswith ''bad.txt'' ''.txt''"
  by (simp_all add: demo_world_def demo_bad_transcript_def demo_bad_line_def file_lines_def
        LF_def CR_def str_strip_def isspace_def str_in_def startswith_def endswith_def)

lemma errored_status: "reply_status errored_reply = Some ''errored''"
  by code_simp

lemma errored_unrecognized: "\<not> str_in ''progress'' ''errored''" "\<not> str_in ''completed'' ''errored''"
  by code_simp+


text \<open>
  C4, as the code has it. A non-blank line without \<^verbatim>\<open>": "\<close> makes \<open>read_text_to_segments\<close>
  fail with an \<open>IndexError\<close>. The parser is called inside the \<^verbatim>\<open>try\<close> block of
  \<open>send_request\<close>, whose handler catches it: for a \<^verbatim>\<open>.txt\<close> path \<open>send_request\<close> prints the
  error and returns \<^verbatim>\<open>None\<close> without sending the request, and \<open>process_summary_request\<close>
  goes on to poll with the request id \<^verbatim>\<open>None\<close>.
\<close>

theorem malformed_line_caught_by_send_request:
  "files w file_path = Some content \<and> l \<in> set (file_lines content) \<and>
   str_strip l \<noteq> [] \<and> \<not> str_in '': '' (str_strip l) \<and> endswith file_path ''.txt'' \<longrightarrow>
     parse_line l = Inl IndexError \<and>
     read_text_to_segments w file_path = Inl IndexError \<and>
     send_request env file_path model w = (Inr JNull, log (PrintExc IndexError) w) \<and>
     process_summary_request env file_path out_folder model w =
       poll_loop env file_path out_folder JNull
         (log (PrintExc IndexError) (log (Print (''Processing file : '' @ file_path)) w))"
  using parse_line_no_sep [of l]
    read_text_to_segments_malformed [of w file_path content l]
    send_request_malformed [of w file_path content l env model]
    process_summary_request_malformed [of w file_path content l env out_folder model]
  by blast

theorem malformed_line_caught_by_send_request_witness:
  "files demo_world ''bad.txt'' = Some demo_bad_transcript \<and>
   demo_bad_line \<in> set (file_lines demo_bad_transcript) \<and>
   str_strip demo_bad_line \<noteq> [] \<and>
   \<not> str_in '': '' (str_strip demo_bad_line) \<and>
   endswith ''bad.txt'' ''.txt'' \<and>
   parse_line demo_bad_line = Inl IndexError \<and>
   read_text_to_segments demo_world ''bad.txt'' = Inl IndexError \<and>
   send_request (demo_env (\<lambda>n. errored_reply)) ''bad.txt'' (JStr ''iamus'') demo_world =
     (Inr JNull, log (PrintExc IndexError) demo_world)"
proof -
  note hyps = demo_bad_facts
  show ?thesis
    using malformed_line_caught_by_send_request
      [where w = demo_world and file_path = "''bad.txt''" and l = demo_bad_line
         and content = demo_bad_transcript
         and env = "demo_env (\<lambda>n. errored_reply)" and model = "JStr ''iamus''"]
      hyps
    by blast
qed

text \<open>
  C4 as stated does not hold: for the transcript \<^verbatim>\<open>bad.txt\<close>, whose second line has no
  separator, no error reaches the caller of \<open>process_summary_request\<close>. The run prints the
  error, asks for the status of the request \<^verbatim>\<open>None\<close> and returns.
\<close>

theorem malformed_line_propagates_counterexample:
  "read_text_to_segments demo_world ''bad.txt'' = Inl IndexError \<and>
   process_summary_request (demo_env (\<lambda>n. errored_reply)) ''bad.txt'' ''/tmp/out'' (JStr ''iamus'')
       demo_world =
     Some (Inr (),
       demo_world
         \<lparr>trace :=
            [Print ''Processing file : bad.txt'',
             PrintExc IndexError,
             HttpGet status_url [(''apikey'', JStr ''KEY''), (''request_id'', JNull)],
             PrintFormat ''request_id: {} status: {}'' [JNull, JStr ''errored'']],
          polls := 1\<rparr>) \<and>
   (\<forall>w'. process_summary_request (demo_env (\<lambda>n. errored_reply)) ''bad.txt'' ''/tmp/out''
           (JStr ''iamus'') demo_world \<noteq> Some (Inl IndexError, w'))"
proof -
  let ?env = "demo_env (\<lambda>n. errored_reply)"
  let ?w1 = "log (PrintExc IndexError) (log (Print (''Processing file : '' @ ''bad.txt'')) demo_world)"
  note hyps = demo_bad_facts
  have a: "read_text_to_segments demo_world ''bad.txt'' = Inl IndexError"
    using hyps(1-4) by (rule read_text_to_segments_malformed)
  have b: "process_summary_request ?env ''bad.txt'' ''/tmp/out'' (JStr ''iamus'') demo_world =
      poll_loop ?env ''bad.txt'' ''/tmp/out'' JNull ?w1"
    using hyps by (rule process_summary_request_malformed)
  have "reply_status (poll_reply ?env JNull (polls ?w1)) = Some ''errored''"
    by (simp add: errored_status)
  then have c: "poll_loop ?env ''bad.txt'' ''/tmp/out'' JNull ?w1 =
     Some (Inr (), log (PrintFormat ''request_id: {} status: {}'' [JNull, JStr ''errored''])
                     (polled ?env JNull ?w1))"
    using errored_unrecognized by (rule poll_loop_unrecognized_status)
  have d: "log (PrintFormat ''request_id: {} status: {}'' [JNull, JStr ''errored''])
             (polled ?env JNull ?w1) =
       demo_world
         \<lparr>trace :=
            [Print ''Processing file : bad.txt'',
             PrintExc IndexError,
             HttpGet status_url [(''apikey'', JStr ''KEY''), (''request_id'', JNull)],
             PrintFormat ''request_id: {} status: {}'' [JNull, JStr ''errored'']],
          polls := 1\<rparr>"
    by (simp add: log_def polled_def demo_world_def status_query_def demo_env_def)
  show ?thesis
    using a unfolding b c d by simp
qed


subsection \<open>The command line\<close>

lemma short_has_arg_registered:
  "short_has_arg opt shortopts = Inr b \<Longrightarrow> opt \<in> set shortopts \<and> opt \<noteq> CHR '':''"
  by (induction shortopts) (auto split: if_splits)

lemma short_has_arg_error:
  "short_has_arg opt shortopts = Inl e \<Longrightarrow> \<exists>msg. e = GetoptError msg"
  by (induction shortopts) (auto split: if_splits)

lemma do_shorts_registered:
  "do_shorts opts optstring shortopts args = Inr (opts', args') \<Longrightarrow>
   fst ` set opts' \<subseteq> fst ` set opts \<union> registered shortopts longopts"
proof (induction opts optstring shortopts args rule: do_shorts.induct)
  case (1 opts shortopts args)
  then show ?case by auto
next
  case (2 opts opt optstring shortopts args)
  show ?case
  proof (cases "short_has_arg opt shortopts")
    case (Inl e)
    then show ?thesis using "2.prems" by simp
  next
    case (Inr b)
    then have reg: "''-'' @ [opt] \<in> registered shortopts longopts"
      using short_has_arg_registered [OF Inr] by (auto simp: registered_def)
    show ?thesis
    proof (cases b)
      case True
      then show ?thesis
        using "2.prems" Inr reg by (auto split: if_splits list.splits)
    next
      case False
      then have "fst ` set opts' \<subseteq> fst ` set (opts @ [(''-'' @ [opt], [])]) \<union> registered shortopts longopts"
        using "2.IH" [of b] "2.prems" Inr by simp
      then show ?thesis
        using reg by auto
    qed
  qed
qed

lemma do_shorts_error:
  "do_shorts opts optstring shortopts args = Inl e \<Longrightarrow> \<exists>msg. e = GetoptError msg"
proof (induction opts optstring shortopts args rule: do_shorts.induct)
  case (1 opts shortopts args)
  then show ?case by simp
next
  case (2 opts opt optstring shortopts args)
  show ?case
  proof (cases "short_has_arg opt shortopts")
    case (Inl e')
    then show ?thesis using "2.prems" short_has_arg_error [OF Inl] by simp
  next
    case (Inr b)
    then show ?thesis
      using "2.prems" "2.IH" [of b] by (cases b) (auto split: if_splits list.splits)
  qed
qed

lemma long_has_args_registered:
  assumes "long_has_args opt longopts = Inr (has_arg, name)"
  shows "name \<in> set longopts \<or> name @ ''='' \<in> set longopts"
proof -
  let ?ps = "filter (\<lambda>o'. startswith o' opt) longopts"
  have hd: "?ps \<noteq> [] \<Longrightarrow> hd ?ps \<in> set longopts"
    using hd_in_set [of ?ps] by auto
  have bl: "endswith u ''='' \<Longrightarrow> butlast u @ ''='' = u" for u
    by (cases u rule: rev_cases) (auto simp: endswith_def)
  show ?thesis
    using assms hd bl [of "hd ?ps"]
    by (auto simp: long_has_args_def Let_def split: if_splits)
qed

lemma long_has_args_error:
  "long_has_args opt longopts = Inl e \<Longrightarrow> \<exists>msg. e = GetoptError msg"
  by (auto simp: long_has_args_def Let_def split: if_splits)

lemma do_longs_registered:
  assumes "do_longs opts opt0 longopts args = Inr (opts', args')"
  shows "fst ` set opts' \<subseteq> fst ` set opts \<union> registered shortopts longopts"
proof -
  obtain opt optarg where oo: "(case str_find ''='' opt0 of None \<Rightarrow> (opt0, None)
             | Some i \<Rightarrow> (take i opt0, Some (drop (Suc i) opt0))) = (opt, optarg)"
    by (cases "case str_find ''='' opt0 of None \<Rightarrow> (opt0, None :: string option)
             | Some i \<Rightarrow> (take i opt0, Some (drop (Suc i) opt0))") auto
  obtain has_arg name where l: "long_has_args opt longopts = Inr (has_arg, name)"
    using assms oo by (cases "long_has_args opt longopts") (auto simp: do_longs_def)
  have reg: "''--'' @ name \<in> registered shortopts longopts"
    using long_has_args_registered [OF l] unfolding registered_def by blast
  have "\<exists>a. opts' = opts @ [(''--'' @ name, a)]"
    using assms oo l by (auto simp: do_longs_def split: if_splits option.splits list.splits)
  then show ?thesis
    using reg by auto
qed

lemma do_longs_error:
  "do_longs opts opt0 longopts args = Inl e \<Longrightarrow> \<exists>msg. e = GetoptError msg"
  using long_has_args_error
  by (auto simp: do_longs_def Let_def split: prod.splits sum.splits if_splits option.splits list.splits)

lemma getopt_loop_registered:
  "getopt_loop opts args shortopts longopts = Inr (opts', rest) \<Longrightarrow>
   fst ` set opts' \<subseteq> fst ` set opts \<union> registered shortopts longopts"
proof (induction opts args shortopts longopts rule: getopt_loop.induct)
  case (1 opts shortopts longopts)
  then show ?case by auto
next
  case (2 opts a args shortopts longopts)
  show ?case
  proof (cases "startswith a ''-'' \<and> a \<noteq> ''-'' \<and> a \<noteq> ''--''")
    case False
    then show ?thesis
      using "2.prems" by (auto split: if_splits)
  next
    case True
    show ?thesis
    proof (cases "startswith a ''--''")
      case long: True
      then obtain o1 a1 where d: "do_longs opts (drop 2 a) longopts args = Inr (o1, a1)"
        and g: "getopt_loop o1 a1 shortopts longopts = Inr (opts', rest)"
        using "2.prems" True by (auto split: sum.splits)
      have "fst ` set opts' \<subseteq> fst ` set o1 \<union> registered shortopts longopts"
        using "2.IH"(1) [OF _ _ long d refl g] True by simp
      then show ?thesis
        using do_longs_registered [OF d, of shortopts] by auto
    next
      case short: False
      then obtain o1 a1 where d: "do_shorts opts (drop 1 a) shortopts args = Inr (o1, a1)"
        and g: "getopt_loop o1 a1 shortopts longopts = Inr (opts', rest)"
        using "2.prems" True by (auto split: sum.splits)
      have "fst ` set opts' \<subseteq> fst ` set o1 \<union> registered shortopts longopts"
        using "2.IH"(2) [OF _ _ short d refl g] True by simp
      then show ?thesis
        using do_shorts_registered [OF d, of longopts] by auto
    qed
  qed
qed

lemma getopt_loop_error:
  "getopt_loop opts args shortopts longopts = Inl e \<Longrightarrow> \<exists>msg. e = GetoptError msg"
proof (induction opts args shortopts longopts rule: getopt_loop.induct)
  case (1 opts shortopts longopts)
  then show ?case by simp
next
  case (2 opts a args shortopts longopts)
  show ?case
  proof (cases "startswith a ''-'' \<and> a \<noteq> ''-'' \<and> a \<noteq> ''--''")
    case False
    then show ?thesis
      using "2.prems" by (auto split: if_splits)
  next
    case True
    show ?thesis
    proof (cases "startswith a ''--''")
      case long: True
      show ?thesis
      proof (cases "do_longs opts (drop 2 a) longopts args")
        case (Inl e')
        then show ?thesis
          using "2.prems" True long do_longs_error [OF Inl] by simp
      next
        case (Inr r)
        then show ?thesis
          using "2.prems" True long "2.IH"(1) [OF _ _ long Inr] by (cases r) auto
      qed
    next
      case short: False
      show ?thesis
      proof (cases "do_shorts opts (drop 1 a) shortopts args")
        case (Inl e')
        then show ?thesis
          using "2.prems" True short do_shorts_error [OF Inl] by simp
      next
        case (Inr r)
        then show ?thesis
          using "2.prems" True short "2.IH"(2) [OF _ _ short Inr] by (cases r) auto
      qed
    qed
  qed
qed

end
